theory Spec2Isabelle
  imports Main "HOL-Library.Word" "HOL-Library.List_Lexorder"
begin

section \<open>Strings, characters and values\<close>

text \<open>
  A JavaScript string is a sequence of UTF-16 code units; \<open>charCodeAt\<close> reads one
  unit as a number, and NaN (an index out of range) is \<open>None\<close>.
\<close>

type_synonym jsstring = "16 word list"

definition str :: "string \<Rightarrow> jsstring" where
  "str s = map of_char s"

definition charCodeAt :: "jsstring \<Rightarrow> nat \<Rightarrow> nat option" where
  "charCodeAt s i = (if i < length s then Some (unat (s ! i)) else None)"

text \<open>\<open>s.slice(a, b)\<close> and \<open>s.slice(a)\<close> for indices that are not negative.\<close>

definition slice :: "jsstring \<Rightarrow> nat \<Rightarrow> nat \<Rightarrow> jsstring" where
  "slice s a b = take (b - a) (drop a s)"

definition sliceFrom :: "jsstring \<Rightarrow> nat \<Rightarrow> jsstring" where
  "sliceFrom s a = drop a s"

text \<open>
  Modelled from the spec: the character constants and \<open>isWhiteSpace\<close> that the source
  imports from \<open>_chars.ts\<close>, with their ASCII code points; whitespace is space or tab.
\<close>

abbreviation (input) TAB :: nat where "TAB \<equiv> 0x09"
abbreviation (input) LINE_FEED :: nat where "LINE_FEED \<equiv> 0x0A"
abbreviation (input) SPACE :: nat where "SPACE \<equiv> 0x20"
abbreviation (input) EXCLAMATION :: nat where "EXCLAMATION \<equiv> 0x21"
abbreviation (input) DOUBLE_QUOTE :: nat where "DOUBLE_QUOTE \<equiv> 0x22"
abbreviation (input) SHARP :: nat where "SHARP \<equiv> 0x23"
abbreviation (input) PERCENT :: nat where "PERCENT \<equiv> 0x25"
abbreviation (input) AMPERSAND :: nat where "AMPERSAND \<equiv> 0x26"
abbreviation (input) SINGLE_QUOTE :: nat where "SINGLE_QUOTE \<equiv> 0x27"
abbreviation (input) ASTERISK :: nat where "ASTERISK \<equiv> 0x2A"
abbreviation (input) COMMA :: nat where "COMMA \<equiv> 0x2C"
abbreviation (input) MINUS :: nat where "MINUS \<equiv> 0x2D"
abbreviation (input) COLON :: nat where "COLON \<equiv> 0x3A"
abbreviation (input) GREATER_THAN :: nat where "GREATER_THAN \<equiv> 0x3E"
abbreviation (input) QUESTION :: nat where "QUESTION \<equiv> 0x3F"
abbreviation (input) COMMERCIAL_AT :: nat where "COMMERCIAL_AT \<equiv> 0x40"
abbreviation (input) LEFT_SQUARE_BRACKET :: nat where "LEFT_SQUARE_BRACKET \<equiv> 0x5B"
abbreviation (input) RIGHT_SQUARE_BRACKET :: nat where "RIGHT_SQUARE_BRACKET \<equiv> 0x5D"
abbreviation (input) GRAVE_ACCENT :: nat where "GRAVE_ACCENT \<equiv> 0x60"
abbreviation (input) LEFT_CURLY_BRACKET :: nat where "LEFT_CURLY_BRACKET \<equiv> 0x7B"
abbreviation (input) VERTICAL_LINE :: nat where "VERTICAL_LINE \<equiv> 0x7C"
abbreviation (input) RIGHT_CURLY_BRACKET :: nat where "RIGHT_CURLY_BRACKET \<equiv> 0x7D"

definition isWhiteSpace :: "nat \<Rightarrow> bool" where
  "isWhiteSpace c = (c = TAB \<or> c = SPACE)"

text \<open>The code units of the characters the dumper writes.\<close>

abbreviation (input) LF :: "16 word" where "LF \<equiv> 0x0A"
abbreviation (input) SP :: "16 word" where "SP \<equiv> 0x20"
abbreviation (input) QUOTE1 :: "16 word" where "QUOTE1 \<equiv> 0x27"
abbreviation (input) QUOTE2 :: "16 word" where "QUOTE2 \<equiv> 0x22"
abbreviation (input) BACKSLASH :: "16 word" where "BACKSLASH \<equiv> 0x5C"

text \<open>
  The values the dumper receives. Objects and arrays have an identity: a value refers
  to one by its address in a store, so that the same object can be contained twice and
  can contain itself. An address outside the store denotes no object.
\<close>

datatype jsval =
    JString jsstring
  | JNumber int
  | JBoolean bool
  | JNull
  | JUndefined
  | JFunction
  | JRef nat

datatype jsobj =
    JArray "jsval list"
  | JObject "(jsstring \<times> jsval) list"

type_synonym heap = "jsobj list"

definition isObject :: "heap \<Rightarrow> jsval \<Rightarrow> bool" where
  "isObject h v = (case v of JRef a \<Rightarrow> a < length h | _ \<Rightarrow> False)"

definition isArray :: "heap \<Rightarrow> jsval \<Rightarrow> bool" where
  "isArray h v = (case v of JRef a \<Rightarrow> a < length h \<and> (case h ! a of JArray _ \<Rightarrow> True | _ \<Rightarrow> False)
                  | _ \<Rightarrow> False)"

text \<open>\<open>Array.isArray(object) ? object : Object.values(object)\<close>\<close>

definition entries :: "jsobj \<Rightarrow> jsval list" where
  "entries ob = (case ob of JArray xs \<Rightarrow> xs | JObject kvs \<Rightarrow> map snd kvs)"

datatype error =
    CodePointError
  | ImpossibleStyle
  | SortKeysError
  | RepresentStyleError
  | UnacceptableKind
  | RecursionLimit

section \<open>Number formatting\<close>

definition digitChar :: "nat \<Rightarrow> 16 word" where
  "digitChar d = (if d < 10 then of_nat (0x30 + d) else of_nat (0x41 + (d - 10)))"

function toHex :: "nat \<Rightarrow> jsstring" where
  "toHex n = (if n < 16 then [digitChar n] else toHex (n div 16) @ [digitChar (n mod 16)])"
  by pat_completeness auto
termination
  by (relation "measure id") auto

function toDecimal :: "nat \<Rightarrow> jsstring" where
  "toDecimal n = (if n < 10 then [digitChar n] else toDecimal (n div 10) @ [digitChar (n mod 10)])"
  by pat_completeness auto
termination
  by (relation "measure id") auto

declare toHex.simps [simp del] toDecimal.simps [simp del]

definition padStart :: "nat \<Rightarrow> jsstring \<Rightarrow> jsstring" where
  "padStart k s = replicate (k - length s) 0x30 @ s"

text \<open>Encodes a code point as a hexadecimal escape sequence.\<close>

definition charCodeToHexString :: "nat \<Rightarrow> error + jsstring" where
  "charCodeToHexString charCode =
     (let hexString = toHex charCode in
      if charCode \<le> 0xff then Inr ([BACKSLASH, 0x78] @ padStart 2 hexString)
      else if charCode \<le> 0xffff then Inr ([BACKSLASH, 0x75] @ padStart 4 hexString)
      else if charCode \<le> 0xffffffff then Inr ([BACKSLASH, 0x55] @ padStart 8 hexString)
      else Inl CodePointError)"

section \<open>Character classifier\<close>

definition isPrintable :: "nat \<Rightarrow> bool" where
  "isPrintable c =
     ((0x00020 \<le> c \<and> c \<le> 0x00007e) \<or>
      (0x000a1 \<le> c \<and> c \<le> 0x00d7ff \<and> c \<noteq> 0x2028 \<and> c \<noteq> 0x2029) \<or>
      (0x0e000 \<le> c \<and> c \<le> 0x00fffd \<and> c \<noteq> 0xfeff) \<or>
      (0x10000 \<le> c \<and> c \<le> 0x10ffff))"

definition isPlainSafe :: "nat \<Rightarrow> bool" where
  "isPlainSafe c =
     (isPrintable c \<and> c \<noteq> 0xfeff \<and>
      c \<noteq> COMMA \<and> c \<noteq> LEFT_SQUARE_BRACKET \<and> c \<noteq> RIGHT_SQUARE_BRACKET \<and>
      c \<noteq> LEFT_CURLY_BRACKET \<and> c \<noteq> RIGHT_CURLY_BRACKET \<and>
      c \<noteq> COLON \<and> c \<noteq> SHARP)"

definition isPlainSafeFirst :: "nat \<Rightarrow> bool" where
  "isPlainSafeFirst c =
     (isPrintable c \<and> c \<noteq> 0xfeff \<and> \<not> isWhiteSpace c \<and>
      c \<noteq> MINUS \<and> c \<noteq> QUESTION \<and> c \<noteq> COLON \<and> c \<noteq> COMMA \<and>
      c \<noteq> LEFT_SQUARE_BRACKET \<and> c \<noteq> RIGHT_SQUARE_BRACKET \<and>
      c \<noteq> LEFT_CURLY_BRACKET \<and> c \<noteq> RIGHT_CURLY_BRACKET \<and>
      c \<noteq> SHARP \<and> c \<noteq> AMPERSAND \<and> c \<noteq> ASTERISK \<and> c \<noteq> EXCLAMATION \<and>
      c \<noteq> VERTICAL_LINE \<and> c \<noteq> GREATER_THAN \<and> c \<noteq> SINGLE_QUOTE \<and>
      c \<noteq> DOUBLE_QUOTE \<and> c \<noteq> PERCENT \<and> c \<noteq> COMMERCIAL_AT \<and> c \<noteq> GRAVE_ACCENT)"

section \<open>Scalar encoder\<close>

abbreviation (input) STYLE_PLAIN :: nat where "STYLE_PLAIN \<equiv> 1"
abbreviation (input) STYLE_SINGLE :: nat where "STYLE_SINGLE \<equiv> 2"
abbreviation (input) STYLE_LITERAL :: nat where "STYLE_LITERAL \<equiv> 3"
abbreviation (input) STYLE_FOLDED :: nat where "STYLE_FOLDED \<equiv> 4"
abbreviation (input) STYLE_DOUBLE :: nat where "STYLE_DOUBLE \<equiv> 5"

definition ESCAPE_SEQUENCES :: "(nat \<times> jsstring) list" where
  "ESCAPE_SEQUENCES =
     [(0x00, [BACKSLASH, 0x30]), (0x07, [BACKSLASH, 0x61]), (0x08, [BACKSLASH, 0x62]),
      (0x09, [BACKSLASH, 0x74]), (0x0a, [BACKSLASH, 0x6E]), (0x0b, [BACKSLASH, 0x76]),
      (0x0c, [BACKSLASH, 0x66]), (0x0d, [BACKSLASH, 0x72]), (0x1b, [BACKSLASH, 0x65]),
      (0x22, [BACKSLASH, QUOTE2]), (0x5c, [BACKSLASH, BACKSLASH]), (0x85, [BACKSLASH, 0x4E]),
      (0xa0, [BACKSLASH, 0x5F]), (0x2028, [BACKSLASH, 0x4C]), (0x2029, [BACKSLASH, 0x50])]"

definition DEPRECATED_BOOLEANS_SYNTAX :: "jsstring list" where
  "DEPRECATED_BOOLEANS_SYNTAX =
     map str [''y'', ''Y'', ''yes'', ''Yes'', ''YES'', ''on'', ''On'', ''ON'',
              ''n'', ''N'', ''no'', ''No'', ''NO'', ''off'', ''Off'', ''OFF'']"

text \<open>\<open>s.split("\n")\<close> and \<open>lines.join("\n")\<close>.\<close>

fun splitLines :: "jsstring \<Rightarrow> jsstring list" where
  "splitLines [] = [[]]"
| "splitLines (c # cs) =
     (if c = LF then [] # splitLines cs
      else (case splitLines cs of [] \<Rightarrow> [[c]] | l # ls \<Rightarrow> (c # l) # ls))"

fun joinLines :: "jsstring list \<Rightarrow> jsstring" where
  "joinLines [] = []"
| "joinLines [l] = l"
| "joinLines (l # ls) = l @ LF # joinLines ls"

text \<open>Indents every line in a string. Empty lines are not indented.\<close>

definition indentString :: "jsstring \<Rightarrow> nat \<Rightarrow> jsstring" where
  "indentString string spaces =
     (let indent = replicate spaces SP in
      joinLines (map (\<lambda>line. if length line \<noteq> 0 then indent @ line else line) (splitLines string)))"

definition generateNextLine :: "nat \<Rightarrow> nat \<Rightarrow> jsstring" where
  "generateNextLine indent level = LF # replicate (indent * level) SP"

text \<open>\<open>LEADING_SPACE_REGEXP = /^\n* /\<close>: line feeds, then a space.\<close>

definition needIndentIndicator :: "jsstring \<Rightarrow> bool" where
  "needIndentIndicator string =
     (case dropWhile (\<lambda>c. c = LF) string of [] \<Rightarrow> False | c # _ \<Rightarrow> c = SP)"

text \<open>
  The two scanning loops of \<open>chooseScalarStyle\<close>. \<open>None\<close> is the early
  \<open>return STYLE_DOUBLE\<close>.
\<close>

fun scanSingleLine :: "jsstring \<Rightarrow> bool \<Rightarrow> bool option" where
  "scanSingleLine [] plain = Some plain"
| "scanSingleLine (c # cs) plain =
     (if \<not> isPrintable (unat c) then None
      else scanSingleLine cs (plain \<and> isPlainSafe (unat c)))"

record scan =
  hasLineBreak :: bool
  hasFoldableLine :: bool
  previousLineBreak :: int
  plain :: bool

text \<open>\<open>string[k] !== " "\<close>, true as well where \<open>k\<close> is past the end.\<close>

definition notSpaceAt :: "jsstring \<Rightarrow> int \<Rightarrow> bool" where
  "notSpaceAt string k = (if 0 \<le> k \<and> nat k < length string then string ! nat k \<noteq> SP else True)"

fun scanBlock :: "jsstring \<Rightarrow> bool \<Rightarrow> int \<Rightarrow> jsstring \<Rightarrow> nat \<Rightarrow> scan \<Rightarrow> scan option" where
  "scanBlock string shouldTrackWidth lineWidth [] i sc = Some sc"
| "scanBlock string shouldTrackWidth lineWidth (c # cs) i sc =
     (if unat c = LINE_FEED then
        (let sc1 = sc\<lparr>hasLineBreak := True\<rparr>;
             sc2 = (if shouldTrackWidth
                    then sc1\<lparr>hasFoldableLine := hasFoldableLine sc1 \<or>
                              (int i - previousLineBreak sc1 - 1 > lineWidth \<and>
                               notSpaceAt string (previousLineBreak sc1 + 1)),
                            previousLineBreak := int i\<rparr>
                    else sc1)
         in scanBlock string shouldTrackWidth lineWidth cs (Suc i)
              (sc2\<lparr>plain := plain sc2 \<and> isPlainSafe (unat c)\<rparr>))
      else if \<not> isPrintable (unat c) then None
      else scanBlock string shouldTrackWidth lineWidth cs (Suc i)
             (sc\<lparr>plain := plain sc \<and> isPlainSafe (unat c)\<rparr>))"

text \<open>
  Determines which scalar styles are possible and returns the preferred style.
  \<open>lineWidth = -1\<close> means no limit. \<open>scanScalar\<close> is the first half of the function, the
  pass over the string (\<open>None\<close>: a character that is not printable was met).
\<close>

definition scanScalar :: "jsstring \<Rightarrow> bool \<Rightarrow> int \<Rightarrow> scan option" where
  "scanScalar string singleLineOnly lineWidth =
     (let shouldTrackWidth = (lineWidth \<noteq> -1);
          plain0 = ((case charCodeAt string 0 of None \<Rightarrow> False | Some c \<Rightarrow> isPlainSafeFirst c) \<and>
                    \<not> (case charCodeAt string (length string - 1) of None \<Rightarrow> False
                        | Some c \<Rightarrow> isWhiteSpace c))
      in if singleLineOnly then
           (case scanSingleLine string plain0 of
              None \<Rightarrow> None
            | Some p \<Rightarrow> Some \<lparr>hasLineBreak = False, hasFoldableLine = False,
                             previousLineBreak = -1, plain = p\<rparr>)
         else
           (case scanBlock string shouldTrackWidth lineWidth string 0
                   \<lparr>hasLineBreak = False, hasFoldableLine = False,
                    previousLineBreak = -1, plain = plain0\<rparr> of
              None \<Rightarrow> None
            | Some sc \<Rightarrow>
                Some (sc\<lparr>hasFoldableLine := hasFoldableLine sc \<or>
                           (shouldTrackWidth \<and>
                            int (length string) - previousLineBreak sc - 1 > lineWidth \<and>
                            notSpaceAt string (previousLineBreak sc + 1))\<rparr>)))"

definition chooseScalarStyle ::
  "jsstring \<Rightarrow> bool \<Rightarrow> nat \<Rightarrow> int \<Rightarrow> (jsstring \<Rightarrow> bool) \<Rightarrow> nat" where
  "chooseScalarStyle string singleLineOnly indentPerLevel lineWidth testAmbiguousType =
     (case scanScalar string singleLineOnly lineWidth of
        None \<Rightarrow> STYLE_DOUBLE
      | Some sc \<Rightarrow>
          if \<not> hasLineBreak sc \<and> \<not> hasFoldableLine sc then
            (if plain sc \<and> \<not> testAmbiguousType string then STYLE_PLAIN else STYLE_SINGLE)
          else if indentPerLevel > 9 \<and> needIndentIndicator string then STYLE_DOUBLE
          else if hasFoldableLine sc then STYLE_FOLDED
          else STYLE_LITERAL)"

text \<open>
  Greedy line breaking. The matches of \<open>/ [^ ]/g\<close> are the positions of a space that
  is followed by a character other than a space.
\<close>

definition breakMatches :: "jsstring \<Rightarrow> nat list" where
  "breakMatches line =
     filter (\<lambda>i. line ! i = SP \<and> line ! (i + 1) \<noteq> SP) [0 ..< length line - 1]"

fun foldLineLoop ::
  "jsstring \<Rightarrow> int \<Rightarrow> nat list \<Rightarrow> nat \<Rightarrow> nat \<Rightarrow> jsstring list \<Rightarrow> nat \<times> nat \<times> jsstring list" where
  "foldLineLoop line width [] start curr' lines = (start, curr', lines)"
| "foldLineLoop line width (next # ms) start curr' lines =
     (if int next - int start > width then
        (let end = (if curr' > start then curr' else next)
         in foldLineLoop line width ms (end + 1) next (lines @ [slice line start end]))
      else foldLineLoop line width ms start next lines)"

definition foldLine :: "jsstring \<Rightarrow> int \<Rightarrow> jsstring" where
  "foldLine line width =
     (if line = [] \<or> hd line = SP then line
      else
        (case foldLineLoop line width (breakMatches line) 0 0 [] of
           (start, curr', lines) \<Rightarrow>
             joinLines
               (if int (length line) - int start > width \<and> curr' > start
                then lines @ [slice line start curr', sliceFrom line (curr' + 1)]
                else lines @ [sliceFrom line start])))"

definition trimTrailingNewline :: "jsstring \<Rightarrow> jsstring" where
  "trimTrailingNewline string =
     (if string \<noteq> [] \<and> last string = LF then butlast string else string)"

text \<open>
  The loop of \<open>foldString\<close> over the matches of \<open>/(\n+)([^\n]*)/g\<close>: each chunk is a
  run of line feeds followed by a content line.
\<close>

function foldStringLoop :: "jsstring \<Rightarrow> int \<Rightarrow> bool \<Rightarrow> jsstring" where
  "foldStringLoop rest width prevMoreIndented =
     (case dropWhile (\<lambda>c. c \<noteq> LF) rest of
        [] \<Rightarrow> []
      | c # cs \<Rightarrow>
          (let prefix = c # takeWhile (\<lambda>c. c = LF) cs;
               rest1 = dropWhile (\<lambda>c. c = LF) cs;
               line = takeWhile (\<lambda>c. c \<noteq> LF) rest1;
               rest2 = dropWhile (\<lambda>c. c \<noteq> LF) rest1;
               moreIndented = (line \<noteq> [] \<and> hd line = SP)
           in prefix @
              (if \<not> prevMoreIndented \<and> \<not> moreIndented \<and> line \<noteq> [] then [LF] else []) @
              foldLine line width @
              foldStringLoop rest2 width moreIndented))"
  by pat_completeness auto
termination
proof (relation "measure (\<lambda>(rest, width, prev). length rest)")
  show "wf (measure (\<lambda>(rest, width, prev). length rest))" by simp
next
  fix rest :: jsstring and width :: int and prevMoreIndented :: bool
    and c cs prefix rest1 line rest2 moreIndented
  assume a: "dropWhile (\<lambda>c. c \<noteq> LF) rest = c # cs"
    and r1: "rest1 = dropWhile (\<lambda>c. c = LF) cs"
    and r2: "rest2 = dropWhile (\<lambda>c. c \<noteq> LF) rest1"
  have "length rest2 \<le> length rest1" unfolding r2 by (rule length_dropWhile_le)
  also have "\<dots> \<le> length cs" unfolding r1 by (rule length_dropWhile_le)
  also have "\<dots> < length (c # cs)" by simp
  also have "\<dots> \<le> length rest" unfolding a [symmetric] by (rule length_dropWhile_le)
  finally show "((rest2, width, moreIndented), (rest, width, prevMoreIndented))
      \<in> measure (\<lambda>(rest, width, prev). length rest)" by simp
qed

declare foldStringLoop.simps [simp del]

definition foldString :: "jsstring \<Rightarrow> int \<Rightarrow> jsstring" where
  "foldString string width =
     (let first = foldLine (takeWhile (\<lambda>c. c \<noteq> LF) string) width;
          prevMoreIndented = (string \<noteq> [] \<and> (hd string = LF \<or> hd string = SP))
      in first @ foldStringLoop (dropWhile (\<lambda>c. c \<noteq> LF) string) width prevMoreIndented)"

text \<open>Escapes a double-quoted string; surrogate pairs are combined first.\<close>

definition escapeChar :: "16 word \<Rightarrow> error + jsstring" where
  "escapeChar c =
     (let char = unat c; escapeSeq = map_of ESCAPE_SEQUENCES char in
      if escapeSeq = None \<and> isPrintable char then Inr [c]
      else (case escapeSeq of Some e \<Rightarrow> Inr e | None \<Rightarrow> charCodeToHexString char))"

definition appendEscaped :: "error + jsstring \<Rightarrow> error + jsstring \<Rightarrow> error + jsstring" where
  "appendEscaped a b =
     (case a of Inl e \<Rightarrow> Inl e
      | Inr x \<Rightarrow> (case b of Inl e \<Rightarrow> Inl e | Inr y \<Rightarrow> Inr (x @ y)))"

fun escapeString :: "jsstring \<Rightarrow> error + jsstring" where
  "escapeString [] = Inr []"
| "escapeString [c] = appendEscaped (escapeChar c) (Inr [])"
| "escapeString (c # n # cs) =
     (let char = unat c; nextChar = unat n in
      if char \<ge> 0xd800 \<and> char \<le> 0xdbff \<and> nextChar \<ge> 0xdc00 \<and> nextChar \<le> 0xdfff
      then appendEscaped
             (charCodeToHexString ((char - 0xd800) * 0x400 + nextChar - 0xdc00 + 0x10000))
             (escapeString cs)
      else appendEscaped (escapeChar c) (escapeString (n # cs)))"

definition blockHeader :: "jsstring \<Rightarrow> nat \<Rightarrow> jsstring" where
  "blockHeader string indentPerLevel =
     (let indentIndicator = (if needIndentIndicator string then toDecimal indentPerLevel else []);
          clip = (string \<noteq> [] \<and> last string = LF);
          keep = (clip \<and> ((length string \<ge> 2 \<and> string ! (length string - 2) = LF) \<or> string = [LF]));
          chomp = (if keep then [0x2B] else if clip then [] else [0x2D])
      in indentIndicator @ chomp @ [LF])"

section \<open>Dumper state\<close>

text \<open>
  Modelled from the spec: the type matchers of a schema (\<open>_type.ts\<close>, \<open>_schema.ts\<close>), which
  the source imports. A matcher has a tag, a \<open>resolve\<close> test on strings, an optional
  predicate on values, an optional represent conversion (one function, or a table keyed
  by style) that gives the printable form of a value, a string, and an optional default
  style. The matchers themselves are parameters.
\<close>

datatype represent =
    DirectConverter "jsval \<Rightarrow> jsstring option \<Rightarrow> jsstring"
  | StyleTable "(jsstring \<times> (jsval \<Rightarrow> jsstring option \<Rightarrow> jsstring)) list"

record ytype =
  type_tag :: jsstring
  type_resolve :: "jsstring \<Rightarrow> bool"
  type_predicate :: "(jsval \<Rightarrow> bool) option"
  type_represent :: "represent option"
  type_defaultStyle :: "jsstring option"

record schema =
  schema_implicitTypes :: "ytype list"
  schema_explicitTypes :: "ytype list"

text \<open>
  \<open>sortKeys\<close> is a boolean, a comparator, or (unchecked by the type) any other value;
  only a truthy one matters.
\<close>

datatype sortKeysOption =
    SortKeysBool bool
  | SortKeysFunction "jsstring \<Rightarrow> jsstring \<Rightarrow> int"
  | SortKeysOtherTruthy

record DumperStateOptions =
  schema_opt :: "schema option"
  indent_opt :: "int option"
  arrayIndent_opt :: "bool option"
  skipInvalid_opt :: "bool option"
  flowLevel_opt :: "int option"
  styles_opt :: "(jsstring \<times> jsstring) list option"
  sortKeys_opt :: "sortKeysOption option"
  lineWidth_opt :: "int option"
  useAnchors_opt :: "bool option"
  compatMode_opt :: "bool option"
  condenseFlow_opt :: "bool option"

text \<open>
  The fields of the class. \<open>indent\<close> is at least 1 after the constructor, so it is a
  natural number here. \<open>duplicates\<close> holds addresses; \<open>usedDuplicates\<close> is a set of them.
\<close>

record DumperState =
  indent :: nat
  arrayIndent :: bool
  skipInvalid :: bool
  flowLevel :: int
  sortKeys :: sortKeysOption
  lineWidth :: int
  useAnchors :: bool
  compatMode :: bool
  condenseFlow :: bool
  implicitTypes :: "ytype list"
  explicitTypes :: "ytype list"
  duplicates :: "nat list"
  usedDuplicates :: "nat set"
  styleMap :: "jsstring \<Rightarrow> jsstring option"

fun compileStyleMapLoop ::
  "(jsstring \<times> jsstring) list \<Rightarrow> (jsstring \<Rightarrow> jsstring option) \<Rightarrow> (jsstring \<Rightarrow> jsstring option)" where
  "compileStyleMapLoop [] result = result"
| "compileStyleMapLoop ((tag, style) # rest) result =
     (let tag' = (if take 2 tag = [0x21, 0x21] then str ''tag:yaml.org,2002:'' @ drop 2 tag else tag)
      in compileStyleMapLoop rest (result(tag' \<mapsto> style)))"

definition compileStyleMap ::
  "(jsstring \<times> jsstring) list option \<Rightarrow> (jsstring \<Rightarrow> jsstring option)" where
  "compileStyleMap m = (case m of None \<Rightarrow> Map.empty | Some kvs \<Rightarrow> compileStyleMapLoop kvs Map.empty)"

text \<open>
  The constructor, with the default of every option. \<open>DEFAULT_SCHEMA\<close> (\<open>_schema.ts\<close>)
  is a parameter.
\<close>

definition newDumperState :: "schema \<Rightarrow> DumperStateOptions \<Rightarrow> DumperState" where
  "newDumperState DEFAULT_SCHEMA opts =
     (let schema = (case schema_opt opts of None \<Rightarrow> DEFAULT_SCHEMA | Some s \<Rightarrow> s);
          indent = (case indent_opt opts of None \<Rightarrow> 2 | Some i \<Rightarrow> i)
      in \<lparr> indent = nat (max 1 indent),
           arrayIndent = (case arrayIndent_opt opts of None \<Rightarrow> True | Some b \<Rightarrow> b),
           skipInvalid = (case skipInvalid_opt opts of None \<Rightarrow> False | Some b \<Rightarrow> b),
           flowLevel = (case flowLevel_opt opts of None \<Rightarrow> -1 | Some l \<Rightarrow> l),
           sortKeys = (case sortKeys_opt opts of None \<Rightarrow> SortKeysBool False | Some k \<Rightarrow> k),
           lineWidth = (case lineWidth_opt opts of None \<Rightarrow> 80 | Some w \<Rightarrow> w),
           useAnchors = (case useAnchors_opt opts of None \<Rightarrow> True | Some b \<Rightarrow> b),
           compatMode = (case compatMode_opt opts of None \<Rightarrow> True | Some b \<Rightarrow> b),
           condenseFlow = (case condenseFlow_opt opts of None \<Rightarrow> False | Some b \<Rightarrow> b),
           implicitTypes = schema_implicitTypes schema,
           explicitTypes = schema_explicitTypes schema,
           duplicates = [],
           usedDuplicates = {},
           styleMap = compileStyleMap (styles_opt opts) \<rparr>)"

definition testImplicitResolving :: "ytype list \<Rightarrow> jsstring \<Rightarrow> bool" where
  "testImplicitResolving implicitTypes' s = list_ex (\<lambda>t. type_resolve t s) implicitTypes'"

text \<open>
  The indentation of a scalar and the width it may use at a nesting level, as
  \<open>stringifyScalar\<close> computes them.
\<close>

definition scalarIndent :: "DumperState \<Rightarrow> nat \<Rightarrow> nat" where
  "scalarIndent st level = indent st * max 1 level"

definition scalarLineWidth :: "DumperState \<Rightarrow> nat \<Rightarrow> int" where
  "scalarLineWidth st level =
     (if lineWidth st = -1 then -1
      else max (min (lineWidth st) 40) (lineWidth st - int (scalarIndent st level)))"

definition replaceQuotes :: "jsstring \<Rightarrow> jsstring" where
  "replaceQuotes s = concat (map (\<lambda>c. if c = QUOTE1 then [QUOTE1, QUOTE1] else [c]) s)"

definition stringifyScalar :: "DumperState \<Rightarrow> jsstring \<Rightarrow> nat \<Rightarrow> bool \<Rightarrow> error + jsstring" where
  "stringifyScalar st string level isKey =
     (if length string = 0 then Inr [QUOTE1, QUOTE1]
      else if compatMode st \<and> string \<in> set DEPRECATED_BOOLEANS_SYNTAX
      then Inr ([QUOTE1] @ string @ [QUOTE1])
      else
        (let indent' = scalarIndent st level;
             lineWidth' = scalarLineWidth st level;
             singleLineOnly = (isKey \<or> (flowLevel st > -1 \<and> int level \<ge> flowLevel st));
             style = chooseScalarStyle string singleLineOnly (indent st) lineWidth'
                       (\<lambda>s. testImplicitResolving (implicitTypes st) s)
         in if style = STYLE_PLAIN then Inr string
            else if style = STYLE_SINGLE then Inr ([QUOTE1] @ replaceQuotes string @ [QUOTE1])
            else if style = STYLE_LITERAL then
              Inr ([0x7C] @ blockHeader string (indent st) @
                   trimTrailingNewline (indentString string indent'))
            else if style = STYLE_FOLDED then
              Inr ([0x3E] @ blockHeader string (indent st) @
                   trimTrailingNewline (indentString (foldString string lineWidth') indent'))
            else if style = STYLE_DOUBLE then
              (case escapeString string of
                 Inl e \<Rightarrow> Inl e
               | Inr escaped \<Rightarrow> Inr ([QUOTE2] @ escaped @ [QUOTE2]))
            else Inl ImpossibleStyle))"

section \<open>Structure serializer\<close>

text \<open>
  The text a node renders to is kept in pieces: plain text, the anchor \<open>&ref_N\<close> and the
  alias \<open>*ref_N\<close>. \<open>render\<close> gives the string the source builds; every test the source
  makes on a rendered string (its first character, its length, its emptiness) is made
  on \<open>render\<close> of the pieces.
\<close>

datatype piece =
    Text jsstring
  | Anchor nat
  | Alias nat

definition renderPiece :: "piece \<Rightarrow> jsstring" where
  "renderPiece p =
     (case p of
        Text s \<Rightarrow> s
      | Anchor n \<Rightarrow> str ''&ref_'' @ toDecimal n
      | Alias n \<Rightarrow> str ''*ref_'' @ toDecimal n)"

definition render :: "piece list \<Rightarrow> jsstring" where
  "render ps = concat (map renderPiece ps)"

text \<open>\<open>string && LINE_FEED === string.charCodeAt(0)\<close>\<close>

definition startsWithLineFeed :: "piece list \<Rightarrow> bool" where
  "startsWithLineFeed ps = (case render ps of [] \<Rightarrow> False | c # _ \<Rightarrow> unat c = LINE_FEED)"

text \<open>\<open>xs.indexOf(x)\<close>: the first index, or -1.\<close>

fun indexOf :: "'a list \<Rightarrow> 'a \<Rightarrow> int" where
  "indexOf [] x = -1"
| "indexOf (y # ys) x = (if y = x then 0 else (let i = indexOf ys x in if i = -1 then -1 else i + 1))"

text \<open>\<open>object[key]\<close> on the own properties of an object, listed in the order of \<open>Object.keys\<close>.\<close>

definition getProperty :: "(jsstring \<times> jsval) list \<Rightarrow> jsstring \<Rightarrow> jsval" where
  "getProperty object k = (case map_of object k of None \<Rightarrow> JUndefined | Some v \<Rightarrow> v)"

text \<open>
  The result of rendering a node: an error thrown, or the pieces (\<open>None\<close> is the
  source's \<open>null\<close>, an invalid value skipped) with the state after it. The container
  renderers call \<open>this.stringifyNode\<close>: it is their first argument \<open>node\<close>, taking the
  level, the value, \<open>block\<close>, \<open>compact\<close>, \<open>isKey\<close> and the state.
\<close>

type_synonym node_result = "error + (piece list option \<times> DumperState)"
type_synonym node_fn = "nat \<Rightarrow> jsval \<Rightarrow> bool \<Rightarrow> bool \<Rightarrow> bool \<Rightarrow> DumperState \<Rightarrow> node_result"
type_synonym container_result = "error + (piece list \<times> DumperState)"

fun stringifyFlowSequenceLoop ::
  "node_fn \<Rightarrow> nat \<Rightarrow> jsval list \<Rightarrow> nat \<Rightarrow> piece list \<Rightarrow> DumperState \<Rightarrow> container_result" where
  "stringifyFlowSequenceLoop node level [] index result st = Inr (result, st)"
| "stringifyFlowSequenceLoop node level (x # xs) index result st =
     (case node level x False False False st of
        Inl e \<Rightarrow> Inl e
      | Inr (None, st') \<Rightarrow> stringifyFlowSequenceLoop node level xs (Suc index) result st'
      | Inr (Some string, st') \<Rightarrow>
          stringifyFlowSequenceLoop node level xs (Suc index)
            (result @
             (if index \<noteq> 0 then [Text (0x2C # (if \<not> condenseFlow st' then [SP] else []))] else []) @
             string) st')"

definition stringifyFlowSequence ::
  "node_fn \<Rightarrow> jsval list \<Rightarrow> nat \<Rightarrow> DumperState \<Rightarrow> container_result" where
  "stringifyFlowSequence node object level st =
     (case stringifyFlowSequenceLoop node level object 0 [] st of
        Inl e \<Rightarrow> Inl e
      | Inr (result, st') \<Rightarrow> Inr ([Text [0x5B]] @ result @ [Text [0x5D]], st'))"

fun stringifyBlockSequenceLoop ::
  "node_fn \<Rightarrow> nat \<Rightarrow> bool \<Rightarrow> jsval list \<Rightarrow> nat \<Rightarrow> piece list \<Rightarrow> DumperState \<Rightarrow> container_result" where
  "stringifyBlockSequenceLoop node level compact [] index result st = Inr (result, st)"
| "stringifyBlockSequenceLoop node level compact (x # xs) index result st =
     (case node (level + 1) x True True False st of
        Inl e \<Rightarrow> Inl e
      | Inr (None, st') \<Rightarrow> stringifyBlockSequenceLoop node level compact xs (Suc index) result st'
      | Inr (Some string, st') \<Rightarrow>
          stringifyBlockSequenceLoop node level compact xs (Suc index)
            (result @
             (if \<not> compact \<or> index \<noteq> 0 then [Text (generateNextLine (indent st') level)] else []) @
             [Text (if startsWithLineFeed string then [0x2D] else [0x2D, SP])] @
             string) st')"

definition stringifyBlockSequence ::
  "node_fn \<Rightarrow> jsval list \<Rightarrow> nat \<Rightarrow> bool \<Rightarrow> DumperState \<Rightarrow> container_result" where
  "stringifyBlockSequence node object level compact st =
     (case stringifyBlockSequenceLoop node level compact object 0 [] st of
        Inl e \<Rightarrow> Inl e
      | Inr (result, st') \<Rightarrow> Inr (if render result \<noteq> [] then result else [Text [0x5B, 0x5D]], st'))"

fun stringifyFlowMappingLoop ::
  "node_fn \<Rightarrow> (jsstring \<times> jsval) list \<Rightarrow> nat \<Rightarrow> jsstring list \<Rightarrow> nat \<Rightarrow> piece list \<Rightarrow>
   DumperState \<Rightarrow> container_result" where
  "stringifyFlowMappingLoop node object level [] index result st = Inr (result, st)"
| "stringifyFlowMappingLoop node object level (objectKey # keys) index result st =
     (let pairBuffer0 = (if condenseFlow st then [Text [QUOTE2]] else []) @
                        (if index \<noteq> 0 then [Text [0x2C, SP]] else []);
          objectValue = getProperty object objectKey
      in case node level (JString objectKey) False False False st of
           Inl e \<Rightarrow> Inl e
         | Inr (None, st1) \<Rightarrow> stringifyFlowMappingLoop node object level keys (Suc index) result st1
         | Inr (Some keyString, st1) \<Rightarrow>
             (let pairBuffer1 =
                    pairBuffer0 @
                    (if length (render keyString) > 1024 then [Text [0x3F, SP]] else []) @
                    keyString @
                    [Text ((if condenseFlow st1 then [QUOTE2] else []) @ [0x3A] @
                           (if condenseFlow st1 then [] else [SP]))]
              in case node level objectValue False False False st1 of
                   Inl e \<Rightarrow> Inl e
                 | Inr (None, st2) \<Rightarrow>
                     stringifyFlowMappingLoop node object level keys (Suc index) result st2
                 | Inr (Some valueString, st2) \<Rightarrow>
                     stringifyFlowMappingLoop node object level keys (Suc index)
                       (result @ pairBuffer1 @ valueString) st2))"

definition stringifyFlowMapping ::
  "node_fn \<Rightarrow> (jsstring \<times> jsval) list \<Rightarrow> nat \<Rightarrow> DumperState \<Rightarrow> container_result" where
  "stringifyFlowMapping node object level st =
     (case stringifyFlowMappingLoop node object level (map fst object) 0 [] st of
        Inl e \<Rightarrow> Inl e
      | Inr (result, st') \<Rightarrow> Inr ([Text [0x7B]] @ result @ [Text [0x7D]], st'))"

text \<open>
  \<open>keys.sort(compare)\<close>: a stable sort. (The order under a comparator that is not a
  consistent order is left to the engine; this is insertion from the right.)
\<close>

fun insertSorted :: "(jsstring \<Rightarrow> jsstring \<Rightarrow> int) \<Rightarrow> jsstring \<Rightarrow> jsstring list \<Rightarrow> jsstring list" where
  "insertSorted cmp x [] = [x]"
| "insertSorted cmp x (y # ys) = (if cmp x y > 0 then y # insertSorted cmp x ys else x # y # ys)"

definition sortWith :: "(jsstring \<Rightarrow> jsstring \<Rightarrow> int) \<Rightarrow> jsstring list \<Rightarrow> jsstring list" where
  "sortWith cmp keys = foldr (insertSorted cmp) keys []"

definition sortObjectKeys :: "sortKeysOption \<Rightarrow> jsstring list \<Rightarrow> error + jsstring list" where
  "sortObjectKeys policy objectKeyList =
     (case policy of
        SortKeysBool True \<Rightarrow> Inr (sort objectKeyList)
      | SortKeysFunction cmp \<Rightarrow> Inr (sortWith cmp objectKeyList)
      | SortKeysOtherTruthy \<Rightarrow> Inl SortKeysError
      | SortKeysBool False \<Rightarrow> Inr objectKeyList)"

fun stringifyBlockMappingLoop ::
  "node_fn \<Rightarrow> (jsstring \<times> jsval) list \<Rightarrow> jsstring option \<Rightarrow> nat \<Rightarrow> bool \<Rightarrow> jsstring list \<Rightarrow>
   nat \<Rightarrow> piece list \<Rightarrow> DumperState \<Rightarrow> container_result" where
  "stringifyBlockMappingLoop node object tag level compact [] index result st = Inr (result, st)"
| "stringifyBlockMappingLoop node object tag level compact (objectKey # keys) index result st =
     (let pairBuffer0 =
            (if \<not> compact \<or> index \<noteq> 0 then [Text (generateNextLine (indent st) level)] else []);
          objectValue = getProperty object objectKey
      in case node (level + 1) (JString objectKey) True True True st of
           Inl e \<Rightarrow> Inl e
         | Inr (None, st1) \<Rightarrow>
             stringifyBlockMappingLoop node object tag level compact keys (Suc index) result st1
         | Inr (Some keyString, st1) \<Rightarrow>
             (let explicitPair =
                    ((tag \<noteq> None \<and> tag \<noteq> Some [0x3F]) \<or> length (render keyString) > 1024);
                  pairBuffer1 =
                    pairBuffer0 @
                    (if explicitPair
                     then [Text (if startsWithLineFeed keyString then [0x3F] else [0x3F, SP])]
                     else []) @
                    keyString @
                    (if explicitPair then [Text (generateNextLine (indent st1) level)] else [])
              in case node (level + 1) objectValue True explicitPair False st1 of
                   Inl e \<Rightarrow> Inl e
                 | Inr (None, st2) \<Rightarrow>
                     stringifyBlockMappingLoop node object tag level compact keys (Suc index) result st2
                 | Inr (Some valueString, st2) \<Rightarrow>
                     stringifyBlockMappingLoop node object tag level compact keys (Suc index)
                       (result @ pairBuffer1 @
                        [Text (if startsWithLineFeed valueString then [0x3A] else [0x3A, SP])] @
                        valueString) st2))"

definition stringifyBlockMapping ::
  "node_fn \<Rightarrow> (jsstring \<times> jsval) list \<Rightarrow> jsstring option \<Rightarrow> nat \<Rightarrow> bool \<Rightarrow> DumperState \<Rightarrow>
   container_result" where
  "stringifyBlockMapping node object tag level compact st =
     (case sortObjectKeys (sortKeys st) (map fst object) of
        Inl e \<Rightarrow> Inl e
      | Inr objectKeyList \<Rightarrow>
          (case stringifyBlockMappingLoop node object tag level compact objectKeyList 0 [] st of
             Inl e \<Rightarrow> Inl e
           | Inr (result, st') \<Rightarrow>
               Inr (if render result \<noteq> [] then result else [Text [0x7B, 0x7D]], st')))"

text \<open>
  \<open>detectType\<close>: the first matcher of the list whose predicate holds gives the tag
  (\<open>?\<close> for an implicit one) and, through its represent conversion, the value to print.
\<close>

definition resolveStyle :: "DumperState \<Rightarrow> ytype \<Rightarrow> jsstring option" where
  "resolveStyle st type =
     (case styleMap st (type_tag type) of
        Some s \<Rightarrow> if s \<noteq> [] then Some s else type_defaultStyle type
      | None \<Rightarrow> type_defaultStyle type)"

definition styleKey :: "jsstring option \<Rightarrow> jsstring" where
  "styleKey style = (case style of None \<Rightarrow> str ''undefined'' | Some s \<Rightarrow> s)"

fun detectTypeLoop ::
  "DumperState \<Rightarrow> bool \<Rightarrow> ytype list \<Rightarrow> jsval \<Rightarrow> error + (jsstring \<times> jsval) option" where
  "detectTypeLoop st explicit [] object = Inr None"
| "detectTypeLoop st explicit (type # typeList) object =
     (if (case type_predicate type of None \<Rightarrow> False | Some p \<Rightarrow> p object) then
        (let tag = (if explicit then type_tag type else [0x3F]) in
         case type_represent type of
           None \<Rightarrow> Inr (Some (tag, object))
         | Some rep \<Rightarrow>
             (let style = resolveStyle st type in
              case rep of
                DirectConverter f \<Rightarrow> Inr (Some (tag, JString (f object style)))
              | StyleTable table \<Rightarrow>
                  (case map_of table (styleKey style) of
                     Some f \<Rightarrow> Inr (Some (tag, JString (f object style)))
                   | None \<Rightarrow> Inl RepresentStyleError)))
      else detectTypeLoop st explicit typeList object)"

definition detectType ::
  "DumperState \<Rightarrow> jsval \<Rightarrow> bool \<Rightarrow> error + (jsstring \<times> jsval) option" where
  "detectType st object explicit =
     detectTypeLoop st explicit (if explicit then explicitTypes st else implicitTypes st) object"

text \<open>
  \<open>this.detectType(object, false) ?? this.detectType(object, true) ?? { tag: null, object }\<close>
\<close>

definition detectTypes :: "DumperState \<Rightarrow> jsval \<Rightarrow> error + (jsstring option \<times> jsval)" where
  "detectTypes st object =
     (case detectType st object False of
        Inl e \<Rightarrow> Inl e
      | Inr (Some (tag, object')) \<Rightarrow> Inr (Some tag, object')
      | Inr None \<Rightarrow>
          (case detectType st object True of
             Inl e \<Rightarrow> Inl e
           | Inr (Some (tag, object')) \<Rightarrow> Inr (Some tag, object')
           | Inr None \<Rightarrow> Inr (None, object)))"

text \<open>The address of a value that is an object or an array of the store.\<close>

definition refAddr :: "heap \<Rightarrow> jsval \<Rightarrow> nat option" where
  "refAddr h v = (case v of JRef a \<Rightarrow> if a < length h then Some a else None | _ \<Rightarrow> None)"

text \<open>The last step of \<open>stringifyNode\<close>: a tag that is neither null nor \<open>?\<close> is written out.\<close>

definition wrapTag :: "jsstring option \<Rightarrow> piece list \<Rightarrow> piece list" where
  "wrapTag tag object =
     (case tag of
        None \<Rightarrow> object
      | Some t \<Rightarrow> if t \<noteq> [0x3F] then Text ([0x21, 0x3C] @ t @ [0x3E, SP]) # object else object)"

text \<open>
  The body of \<open>stringifyNode\<close>, in three parts; \<open>node\<close> is the method itself, called by
  the container renderers on the children. \<open>stringifyCollection\<close> is the branch of an
  object or an array at address \<open>a\<close>: the alias of a duplicate that is already used, or
  the rendering (after marking a duplicate used) with the anchor in front.
  \<open>stringifyLeaf\<close> is the rest of the chain: a string, or a value that cannot be dumped.
\<close>

definition stringifyCollection ::
  "node_fn \<Rightarrow> heap \<Rightarrow> nat \<Rightarrow> jsstring option \<Rightarrow> nat \<Rightarrow> bool \<Rightarrow> bool \<Rightarrow> int \<Rightarrow> DumperState \<Rightarrow>
   node_result" where
  "stringifyCollection node h a tag level block compact duplicateIndex st =
     (let duplicate = (duplicateIndex \<noteq> -1) in
      if duplicate \<and> a \<in> usedDuplicates st
      then Inr (Some [Alias (nat duplicateIndex)], st)
      else
        (let st1 = (if duplicate then st\<lparr>usedDuplicates := insert a (usedDuplicates st)\<rparr> else st)
         in case h ! a of
              JObject kvs \<Rightarrow>
                (if block \<and> length (map fst kvs) \<noteq> 0 then
                   (case stringifyBlockMapping node kvs tag level compact st1 of
                      Inl e \<Rightarrow> Inl e
                    | Inr (ob, st2) \<Rightarrow>
                        Inr (Some (wrapTag tag
                               (if duplicate then Anchor (nat duplicateIndex) # ob else ob)), st2))
                 else
                   (case stringifyFlowMapping node kvs level st1 of
                      Inl e \<Rightarrow> Inl e
                    | Inr (ob, st2) \<Rightarrow>
                        Inr (Some (wrapTag tag
                               (if duplicate then Anchor (nat duplicateIndex) # Text [SP] # ob
                                else ob)), st2)))
            | JArray xs \<Rightarrow>
                (let arrayLevel = (if \<not> arrayIndent st1 \<and> level > 0 then level - 1 else level)
                 in if block \<and> length xs \<noteq> 0 then
                      (case stringifyBlockSequence node xs arrayLevel compact st1 of
                         Inl e \<Rightarrow> Inl e
                       | Inr (ob, st2) \<Rightarrow>
                           Inr (Some (wrapTag tag
                                  (if duplicate then Anchor (nat duplicateIndex) # ob else ob)), st2))
                    else
                      (case stringifyFlowSequence node xs arrayLevel st1 of
                         Inl e \<Rightarrow> Inl e
                       | Inr (ob, st2) \<Rightarrow>
                           Inr (Some (wrapTag tag
                                  (if duplicate then Anchor (nat duplicateIndex) # Text [SP] # ob
                                   else ob)), st2)))))"

definition stringifyLeaf ::
  "DumperState \<Rightarrow> jsstring option \<Rightarrow> jsval \<Rightarrow> nat \<Rightarrow> bool \<Rightarrow> node_result" where
  "stringifyLeaf st tag object level isKey =
     (case object of
        JString string \<Rightarrow>
          (if tag \<noteq> Some [0x3F] then
             (case stringifyScalar st string level isKey of
                Inl e \<Rightarrow> Inl e
              | Inr text \<Rightarrow> Inr (Some (wrapTag tag [Text text]), st))
           else Inr (Some (wrapTag tag [Text string]), st))
      | _ \<Rightarrow> if skipInvalid st then Inr (None, st) else Inl UnacceptableKind)"

definition stringifyNodeBody ::
  "node_fn \<Rightarrow> heap \<Rightarrow> nat \<Rightarrow> jsval \<Rightarrow> bool \<Rightarrow> bool \<Rightarrow> bool \<Rightarrow> DumperState \<Rightarrow> node_result" where
  "stringifyNodeBody node h level object0 block0 compact0 isKey st =
     (case detectTypes st object0 of
        Inl e \<Rightarrow> Inl e
      | Inr (tag, object) \<Rightarrow>
          (let block = (if block0 then flowLevel st < 0 \<or> flowLevel st > int level else block0);
               duplicateIndex =
                 (case refAddr h object of Some a \<Rightarrow> indexOf (duplicates st) a | None \<Rightarrow> -1);
               duplicate = (duplicateIndex \<noteq> -1);
               compact = (if (tag \<noteq> None \<and> tag \<noteq> Some [0x3F]) \<or> duplicate \<or>
                             (indent st \<noteq> 2 \<and> level > 0)
                          then False else compact0)
           in case refAddr h object of
                Some a \<Rightarrow> stringifyCollection node h a tag level block compact duplicateIndex st
              | None \<Rightarrow> stringifyLeaf st tag object level isKey))"

text \<open>
  \<open>stringifyNode\<close>, with a bound on the depth of the recursion: the source recurses as
  deep as the value is nested, and without end on a value that contains itself when no
  alias cuts the recursion. \<open>RecursionLimit\<close> is the call that does not return within
  the bound.
\<close>

primrec stringifyNode :: "nat \<Rightarrow> heap \<Rightarrow> node_fn" where
  "stringifyNode 0 h = (\<lambda>level object block compact isKey st. Inl RecursionLimit)"
| "stringifyNode (Suc fuel) h = stringifyNodeBody (stringifyNode fuel h) h"

section \<open>Duplicate and anchor tracker\<close>

text \<open>\<open>duplicateObjects.add(object)\<close> on a set that keeps the order of insertion.\<close>

definition setAdd :: "nat list \<Rightarrow> nat \<Rightarrow> nat list" where
  "setAdd s a = (if a \<in> set s then s else s @ [a])"

type_synonym inspect_state = "nat list \<times> nat list"

text \<open>The loop \<open>for (const value of entries) inspectNode(value, ...)\<close> over a state \<open>'s\<close>.\<close>

fun inspectEntries :: "(jsval \<Rightarrow> 's \<Rightarrow> 's option) \<Rightarrow> jsval list \<Rightarrow> 's \<Rightarrow> 's option" where
  "inspectEntries inspect [] s = Some s"
| "inspectEntries inspect (v # vs) s =
     (case inspect v s of None \<Rightarrow> None | Some s' \<Rightarrow> inspectEntries inspect vs s')"

text \<open>
  \<open>inspectNode\<close> on the pair of \<open>objects\<close> (the visited list) and \<open>duplicateObjects\<close>,
  with a bound on the depth of the recursion (\<open>None\<close>: the bound is reached).
\<close>

primrec inspectNode :: "nat \<Rightarrow> heap \<Rightarrow> jsval \<Rightarrow> inspect_state \<Rightarrow> inspect_state option" where
  "inspectNode 0 h = (\<lambda>object s. None)"
| "inspectNode (Suc fuel) h = (\<lambda>object s.
     case refAddr h object of
       None \<Rightarrow> Some s
     | Some a \<Rightarrow>
         (case s of (objects, duplicateObjects) \<Rightarrow>
            if a \<in> set objects then Some (objects, setAdd duplicateObjects a)
            else inspectEntries (inspectNode fuel h) (entries (h ! a))
                   (objects @ [a], duplicateObjects)))"

definition getDuplicateReferences :: "nat \<Rightarrow> heap \<Rightarrow> jsval \<Rightarrow> DumperState \<Rightarrow> DumperState option" where
  "getDuplicateReferences fuel h object st =
     (case inspectNode fuel h object ([], []) of
        None \<Rightarrow> None
      | Some (objects, duplicateObjects) \<Rightarrow>
          Some (st\<lparr>duplicates := duplicates st @ duplicateObjects, usedDuplicates := {}\<rparr>))"

text \<open>
  \<open>stringify\<close>: the pieces of the document (\<open>None\<close> where the root is skipped), and the
  string returned.
\<close>

definition stringifyPieces :: "nat \<Rightarrow> heap \<Rightarrow> jsval \<Rightarrow> DumperState \<Rightarrow> error + piece list option" where
  "stringifyPieces fuel h data st =
     (case (if useAnchors st then getDuplicateReferences fuel h data st else Some st) of
        None \<Rightarrow> Inl RecursionLimit
      | Some st1 \<Rightarrow>
          (case stringifyNode fuel h 0 data True True False st1 of
             Inl e \<Rightarrow> Inl e
           | Inr (None, st2) \<Rightarrow> Inr None
           | Inr (Some string, st2) \<Rightarrow> Inr (Some (string @ [Text [LF]]))))"

definition stringify :: "nat \<Rightarrow> heap \<Rightarrow> jsval \<Rightarrow> DumperState \<Rightarrow> error + jsstring" where
  "stringify fuel h data st =
     (case stringifyPieces fuel h data st of
        Inl e \<Rightarrow> Inl e
      | Inr None \<Rightarrow> Inr []
      | Inr (Some ps) \<Rightarrow> Inr (render ps))"

section \<open>Predicates of the properties\<close>

text \<open>
  The forms an escaped unit takes: a hexadecimal escape is a backslash, one of
  \<open>x\<close>, \<open>u\<close>, \<open>U\<close>, and two, four or eight hexadecimal digits. A unit of the input (one
  code unit, or the two of a surrogate pair) with its output is escaped verbatim, as the
  named escape of the table, or as a hexadecimal escape.
\<close>

definition isHexDigit :: "16 word \<Rightarrow> bool" where
  "isHexDigit c = ((0x30 \<le> unat c \<and> unat c \<le> 0x39) \<or> (0x41 \<le> unat c \<and> unat c \<le> 0x46))"

definition isHexEscape :: "jsstring \<Rightarrow> bool" where
  "isHexEscape p =
     (case p of
        b # k # ds \<Rightarrow>
          b = BACKSLASH \<and>
          ((k = 0x78 \<and> length ds = 2) \<or> (k = 0x75 \<and> length ds = 4) \<or> (k = 0x55 \<and> length ds = 8)) \<and>
          list_all isHexDigit ds
      | _ \<Rightarrow> False)"

definition escapedUnit :: "jsstring \<times> jsstring \<Rightarrow> bool" where
  "escapedUnit p =
     (case p of (src, out) \<Rightarrow>
        (length src = 1 \<and> out = src) \<or>
        (length src = 1 \<and> map_of ESCAPE_SEQUENCES (unat (hd src)) = Some out) \<or>
        ((length src = 1 \<or> length src = 2) \<and> isHexEscape out))"

text \<open>Inputs of the worked examples: a schema with no matcher, and no option set.\<close>

definition emptySchema :: schema where
  "emptySchema = \<lparr>schema_implicitTypes = [], schema_explicitTypes = []\<rparr>"

definition defaultOptions :: DumperStateOptions where
  "defaultOptions =
     \<lparr>schema_opt = None, indent_opt = None, arrayIndent_opt = None, skipInvalid_opt = None,
      flowLevel_opt = None, styles_opt = None, sortKeys_opt = None, lineWidth_opt = None,
      useAnchors_opt = None, compatMode_opt = None, condenseFlow_opt = None\<rparr>"


text \<open>The state the constructor builds from no option.\<close>

definition exampleState :: DumperState where
  "exampleState = newDumperState emptySchema defaultOptions"


text \<open>The values of the worked examples on mappings and sequences.\<close>

definition twoPairs :: heap where
  "twoPairs = [JObject [([0x61], JString [0x78]), ([0x62], JString [0x7A])]]"

definition twoItems :: heap where
  "twoItems = [JArray [JString [0x78], JString [0x7A]]]"


definition isText :: "piece \<Rightarrow> bool" where
  "isText p = (case p of Text t \<Rightarrow> True | _ \<Rightarrow> False)"














text \<open>The mapping of \<open>a\<close> to the sequence of \<open>x\<close> and \<open>z\<close>.\<close>

definition nestedSequence :: heap where
  "nestedSequence = [JObject [([0x61], JRef 1)], JArray [JString [0x78], JString [0x7A]]]"

text \<open>The values of \<open>block\<close> and \<open>compact\<close> that \<open>stringifyNode\<close> goes on with.\<close>

definition blockAt :: "DumperState \<Rightarrow> nat \<Rightarrow> bool \<Rightarrow> bool" where
  "blockAt st level block = (if block then flowLevel st < 0 \<or> flowLevel st > int level else block)"

definition compactAt :: "DumperState \<Rightarrow> jsstring option \<Rightarrow> bool \<Rightarrow> nat \<Rightarrow> bool \<Rightarrow> bool" where
  "compactAt st tag duplicate level compact =
     (if (tag \<noteq> None \<and> tag \<noteq> Some [0x3F]) \<or> duplicate \<or> (indent st \<noteq> 2 \<and> level > 0)
      then False else compact)"

text \<open>A store without arrays.\<close>

definition noArrays :: "heap \<Rightarrow> bool" where
  "noArrays h = list_all (\<lambda>ob. case ob of JArray xs \<Rightarrow> False | JObject kvs \<Rightarrow> True) h"

definition withArrayIndent :: "bool \<Rightarrow> DumperState \<Rightarrow> DumperState" where
  "withArrayIndent f st = st\<lparr>arrayIndent := f\<rparr>"

definition liftNode :: "(DumperState \<Rightarrow> DumperState) \<Rightarrow> node_result \<Rightarrow> node_result" where
  "liftNode g res = (case res of Inl e \<Rightarrow> Inl e | Inr (r, st') \<Rightarrow> Inr (r, g st'))"

definition liftLoop :: "(DumperState \<Rightarrow> DumperState) \<Rightarrow> container_result \<Rightarrow> container_result" where
  "liftLoop g res = (case res of Inl e \<Rightarrow> Inl e | Inr (r, st') \<Rightarrow> Inr (r, g st'))"

text \<open>
  A serializer of nodes commutes with the setting of \<open>arrayIndent\<close>: it returns the same
  text, and the same state up to the flag.
\<close>

definition flagFree :: "bool \<Rightarrow> node_fn \<Rightarrow> bool" where
  "flagFree f node =
     (\<forall>level x block compact isKey st.
        node level x block compact isKey (withArrayIndent f st)
          = liftNode (withArrayIndent f) (node level x block compact isKey st))"

text \<open>
  A mapping and a sequence whose first entry is a function, a value no type of the empty
  schema accepts, and the same containers without that entry.
\<close>

definition invalidFirstPairs :: heap where
  "invalidFirstPairs =
     [JObject [([0x61], JFunction), ([0x62], JString [0x7A]), ([0x63], JString [0x77])]]"

definition invalidFirstItems :: heap where
  "invalidFirstItems = [JArray [JFunction, JString [0x7A], JString [0x77]]]"

definition validPairs :: heap where
  "validPairs = [JObject [([0x62], JString [0x7A]), ([0x63], JString [0x77])]]"

definition validItems :: heap where
  "validItems = [JArray [JString [0x7A], JString [0x77]]]"

text \<open>
  The rendering of the value \<open>x\<close> by \<open>node\<close> does not depend on \<open>arrayIndent\<close>: under either
  setting of the flag it returns the same text, and the same state up to the flag.
\<close>

definition flagFreeAt :: "node_fn \<Rightarrow> jsval \<Rightarrow> bool" where
  "flagFreeAt node x =
     (\<forall>f level block compact isKey st.
        node level x block compact isKey (withArrayIndent f st)
          = liftNode (withArrayIndent f) (node level x block compact isKey st))"

text \<open>
  The mapping of \<open>a\<close> to a sequence that holds the sequence of \<open>p\<close> and \<open>q\<close>, and the
  mapping of \<open>a\<close> to the sequence of the sequence of \<open>p\<close>, and \<open>q\<close>.
\<close>

definition nestedPair :: heap where
  "nestedPair = [JObject [([0x61], JRef 1)], JArray [JRef 2], JArray [JString [0x70], JString [0x71]]]"

definition nestedSingle :: heap where
  "nestedSingle = [JObject [([0x61], JRef 1)], JArray [JRef 2, JString [0x71]], JArray [JString [0x70]]]"











section \<open>Properties\<close>

subsection \<open>The double-quote escaper\<close>

lemma unat_of_nat16: "m < 65536 \<Longrightarrow> unat (of_nat m :: 16 word) = m"
  using unat_of_nat [where 'a = 16, of m] by simp

lemma isHexDigit_digitChar: "d < 16 \<Longrightarrow> isHexDigit (digitChar d)"
proof -
  assume d: "d < 16"
  then have u: "unat (of_nat (0x30 + d) :: 16 word) = 0x30 + d"
    "unat (of_nat (0x41 + (d - 10)) :: 16 word) = 0x41 + (d - 10)"
    by (simp_all only: unat_of_nat16)
  show ?thesis
  proof (cases "d < 10")
    case True
    then show ?thesis unfolding isHexDigit_def digitChar_def by (simp only: u if_True) simp
  next
    case False
    then show ?thesis using d unfolding isHexDigit_def digitChar_def
      by (simp only: u if_False) simp
  qed
qed

lemma toHex_digits: "list_all isHexDigit (toHex n)"
proof (induction n rule: toHex.induct)
  case (1 n)
  show ?case
  proof (cases "n < 16")
    case True
    then show ?thesis by (subst toHex.simps) (simp add: isHexDigit_digitChar)
  next
    case False
    then show ?thesis using 1 by (subst toHex.simps) (simp add: isHexDigit_digitChar)
  qed
qed

lemma toHex_length: "0 < k \<Longrightarrow> n < 16 ^ k \<Longrightarrow> length (toHex n) \<le> k"
proof (induction k arbitrary: n)
  case 0
  then show ?case by simp
next
  case (Suc k)
  show ?case
  proof (cases "n < 16")
    case True
    then show ?thesis by (subst toHex.simps) simp
  next
    case False
    with Suc.prems have k: "0 < k" by (cases k) auto
    from Suc.prems have "n div 16 < 16 ^ k"
      by (simp add: less_mult_imp_div_less mult.commute)
    with Suc.IH k have "length (toHex (n div 16)) \<le> k" by simp
    with False show ?thesis by (subst toHex.simps) simp
  qed
qed

lemma padStart_hex: "0 < k \<Longrightarrow> n < 16 ^ k \<Longrightarrow>
  length (padStart k (toHex n)) = k \<and> list_all isHexDigit (padStart k (toHex n))"
proof -
  assume k: "0 < k" "n < 16 ^ k"
  have z: "isHexDigit 0x30" by (simp add: isHexDigit_def)
  from k toHex_length [of k n] have "length (padStart k (toHex n)) = k"
    by (simp add: padStart_def)
  moreover from toHex_digits [of n] z have "list_all isHexDigit (padStart k (toHex n))"
    by (auto simp: padStart_def list_all_iff)
  ultimately show ?thesis by simp
qed

lemma charCodeToHexString_form:
  "charCode \<le> 0xffffffff \<Longrightarrow> \<exists>out. charCodeToHexString charCode = Inr out \<and> isHexEscape out"
  using padStart_hex [of 2 charCode] padStart_hex [of 4 charCode] padStart_hex [of 8 charCode]
  by (auto simp: charCodeToHexString_def isHexEscape_def Let_def)

lemma escapeChar_form:
  "\<exists>out. escapeChar c = Inr out \<and> escapedUnit ([c], out)"
proof -
  have "unat c < 2 ^ 16" using unsigned_less [of c, where 'a = nat] by simp
  then have "unat c \<le> 0xffffffff" by simp
  from charCodeToHexString_form [OF this] show ?thesis
    by (auto simp: escapeChar_def escapedUnit_def Let_def split: option.splits)
qed

lemma surrogate_bound:
  "0xd800 \<le> char \<Longrightarrow> char \<le> 0xdbff \<Longrightarrow> 0xdc00 \<le> nextChar \<Longrightarrow> nextChar \<le> 0xdfff \<Longrightarrow>
   (char - 0xd800) * 0x400 + nextChar - 0xdc00 + 0x10000 \<le> (0x10ffff :: nat)"
  by simp

text \<open>
  C8: escaping a double-quoted string never throws. For every string of UTF-16 code units
  \<open>escapeString\<close> returns a result, and the result is the concatenation of the outputs
  of the units of the input, each one written verbatim, as its named two-character
  escape, or as a hexadecimal escape with two, four or eight digits. (A surrogate pair
  combines to a code point of at most 0x10FFFF, below the bound 0xFFFFFFFF of the error.)
\<close>

theorem escapeString_never_throws:
  "\<exists>units. escapeString string = Inr (concat (map snd units)) \<and>
           concat (map fst units) = string \<and> list_all escapedUnit units"
proof (induction string rule: escapeString.induct)
  case 1
  show ?case by (rule exI [of _ "[]"]) simp
next
  case (2 c)
  from escapeChar_form [of c] obtain out where o: "escapeChar c = Inr out" "escapedUnit ([c], out)"
    by blast
  show ?case by (rule exI [of _ "[([c], out)]"]) (simp add: o appendEscaped_def)
next
  case (3 c n cs)
  let ?pair = "unat c \<ge> 0xd800 \<and> unat c \<le> 0xdbff \<and> unat n \<ge> 0xdc00 \<and> unat n \<le> 0xdfff"
  show ?case
  proof (cases ?pair)
    case True
    then have "(unat c - 0xd800) * 0x400 + unat n - 0xdc00 + 0x10000 \<le> (0x10ffff :: nat)"
      by (intro surrogate_bound) simp_all
    then have "(unat c - 0xd800) * 0x400 + unat n - 0xdc00 + 0x10000 \<le> (0xffffffff :: nat)"
      by linarith
    from charCodeToHexString_form [OF this] obtain out where
      o: "charCodeToHexString ((unat c - 0xd800) * 0x400 + unat n - 0xdc00 + 0x10000) = Inr out"
         "isHexEscape out" by blast
    from 3(1) True obtain units where
      u: "escapeString cs = Inr (concat (map snd units))" "concat (map fst units) = cs"
         "list_all escapedUnit units" by auto
    from o have e: "escapedUnit ([c, n], out)" by (simp add: escapedUnit_def)
    from True have eq: "escapeString (c # n # cs) =
        appendEscaped (charCodeToHexString ((unat c - 0xd800) * 0x400 + unat n - 0xdc00 + 0x10000))
          (escapeString cs)"
      by (simp add: Let_def)
    show ?thesis
      by (rule exI [of _ "([c, n], out) # units"])
         (use o e u in \<open>simp add: eq appendEscaped_def del: escapeString.simps\<close>)
  next
    case False
    from escapeChar_form [of c] obtain out where o: "escapeChar c = Inr out" "escapedUnit ([c], out)"
      by blast
    from 3(2) False obtain units where
      u: "escapeString (n # cs) = Inr (concat (map snd units))" "concat (map fst units) = n # cs"
         "list_all escapedUnit units" by auto
    from False have eq: "escapeString (c # n # cs) = appendEscaped (escapeChar c) (escapeString (n # cs))"
      by (auto simp: Let_def)
    show ?thesis
      by (rule exI [of _ "([c], out) # units"])
         (use o u in \<open>simp add: eq appendEscaped_def del: escapeString.simps\<close>)
  qed
qed

subsection \<open>The width budget\<close>

lemma replicate_two: "replicate 2 x = [x, x]"
  by (simp add: numeral_2_eq_2)

lemma DEPRECATED_BOOLEANS_SYNTAX_eval:
  "DEPRECATED_BOOLEANS_SYNTAX =
    [[0x79], [0x59], [0x79, 0x65, 0x73], [0x59, 0x65, 0x73], [0x59, 0x45, 0x53],
     [0x6F, 0x6E], [0x4F, 0x6E], [0x4F, 0x4E], [0x6E], [0x4E], [0x6E, 0x6F], [0x4E, 0x6F],
     [0x4E, 0x4F], [0x6F, 0x66, 0x66], [0x4F, 0x66, 0x66], [0x4F, 0x46, 0x46]]"
  by (simp add: DEPRECATED_BOOLEANS_SYNTAX_def str_def)

lemma scanBlock_untracked:
  "scanBlock string False w cs i sc = Some sc' \<Longrightarrow> hasFoldableLine sc' = hasFoldableLine sc"
proof (induction cs arbitrary: i sc)
  case Nil
  then show ?case by simp
next
  case (Cons c cs)
  show ?case
  proof (cases "unat c = LINE_FEED")
    case True
    with Cons.prems have
      "scanBlock string False w cs (Suc i)
         (sc\<lparr>hasLineBreak := True, plain := plain sc \<and> isPlainSafe (unat c)\<rparr>) = Some sc'"
      by (simp add: Let_def)
    from Cons.IH [OF this] show ?thesis by simp
  next
    case False
    with Cons.prems have
      "scanBlock string False w cs (Suc i) (sc\<lparr>plain := plain sc \<and> isPlainSafe (unat c)\<rparr>) = Some sc'"
      by (simp split: if_splits)
    from Cons.IH [OF this] show ?thesis by simp
  qed
qed

lemma scanScalar_unlimited:
  "scanScalar string singleLineOnly (-1) = Some sc \<Longrightarrow> \<not> hasFoldableLine sc"
proof (cases singleLineOnly)
  case True
  assume "scanScalar string singleLineOnly (-1) = Some sc"
  with True show ?thesis
    by (auto simp: scanScalar_def split: option.splits)
next
  case False
  assume a: "scanScalar string singleLineOnly (-1) = Some sc"
  with False obtain sc0 where
    s: "scanBlock string False (-1) string 0
         \<lparr>hasLineBreak = False, hasFoldableLine = False, previousLineBreak = -1,
          plain = ((case charCodeAt string 0 of None \<Rightarrow> False | Some c \<Rightarrow> isPlainSafeFirst c) \<and>
                    \<not> (case charCodeAt string (length string - 1) of None \<Rightarrow> False
                        | Some c \<Rightarrow> isWhiteSpace c))\<rparr> = Some sc0"
    and e: "sc = sc0\<lparr>hasFoldableLine := hasFoldableLine sc0\<rparr>"
    by (auto simp: scanScalar_def split: option.splits)
  from scanBlock_untracked [OF s] e show ?thesis by simp
qed

lemma chooseScalarStyle_unlimited:
  "chooseScalarStyle string singleLineOnly indentPerLevel (-1) testAmbiguousType \<noteq> STYLE_FOLDED"
proof (cases "scanScalar string singleLineOnly (-1)")
  case None
  then show ?thesis by (simp add: chooseScalarStyle_def)
next
  case (Some sc)
  with scanScalar_unlimited [OF Some] show ?thesis by (simp add: chooseScalarStyle_def)
qed

lemma scanSingleLine_plain: "scanSingleLine cs p = Some q \<Longrightarrow> q \<Longrightarrow> p"
  by (induction cs arbitrary: p) (auto split: if_splits)

lemma scanBlock_plain: "scanBlock string t w cs i sc = Some sc' \<Longrightarrow> plain sc' \<Longrightarrow> plain sc"
proof (induction cs arbitrary: i sc)
  case Nil
  then show ?case by simp
next
  case (Cons c cs)
  show ?case
  proof (cases "unat c = LINE_FEED")
    case True
    with Cons.prems(1) obtain sc2 where
      s: "scanBlock string t w cs (Suc i) (sc2\<lparr>plain := plain sc2 \<and> isPlainSafe (unat c)\<rparr>) = Some sc'"
      and p: "plain sc2 = plain sc"
      by (cases t) (simp_all add: Let_def)
    from Cons.IH [OF s Cons.prems(2)] p show ?thesis by simp
  next
    case False
    with Cons.prems(1) have
      "scanBlock string t w cs (Suc i) (sc\<lparr>plain := plain sc \<and> isPlainSafe (unat c)\<rparr>) = Some sc'"
      by (simp split: if_splits)
    from Cons.IH [OF this Cons.prems(2)] show ?thesis by simp
  qed
qed

lemma scanScalar_plain:
  assumes s: "scanScalar string singleLineOnly w = Some sc" and p: "plain sc"
  shows "string \<noteq> [] \<and> isPlainSafeFirst (unat (hd string))"
proof -
  define p0 where "p0 = ((case charCodeAt string 0 of None \<Rightarrow> False | Some c \<Rightarrow> isPlainSafeFirst c) \<and>
             \<not> (case charCodeAt string (length string - 1) of None \<Rightarrow> False
                 | Some c \<Rightarrow> isWhiteSpace c))"
  have u: "scanScalar string singleLineOnly w =
     (if singleLineOnly then
           (case scanSingleLine string p0 of
              None \<Rightarrow> None
            | Some p \<Rightarrow> Some \<lparr>hasLineBreak = False, hasFoldableLine = False,
                             previousLineBreak = -1, plain = p\<rparr>)
         else
           (case scanBlock string (w \<noteq> -1) w string 0
                   \<lparr>hasLineBreak = False, hasFoldableLine = False,
                    previousLineBreak = -1, plain = p0\<rparr> of
              None \<Rightarrow> None
            | Some sc \<Rightarrow>
                Some (sc\<lparr>hasFoldableLine := hasFoldableLine sc \<or>
                           ((w \<noteq> -1) \<and>
                            int (length string) - previousLineBreak sc - 1 > w \<and>
                            notSpaceAt string (previousLineBreak sc + 1))\<rparr>)))"
    unfolding scanScalar_def Let_def p0_def by (rule refl)
  have "p0"
  proof (cases singleLineOnly)
    case True
    with s p have "scanSingleLine string p0 = Some True"
      unfolding u by (auto split: option.splits)
    from scanSingleLine_plain [OF this] show ?thesis by simp
  next
    case False
    with s obtain sc0 where
      b: "scanBlock string (w \<noteq> -1) w string 0
            \<lparr>hasLineBreak = False, hasFoldableLine = False, previousLineBreak = -1, plain = p0\<rparr>
          = Some sc0" and e: "plain sc = plain sc0"
      unfolding u by (auto split: option.splits)
    from scanBlock_plain [OF b] e p show ?thesis by simp
  qed
  then show ?thesis
    unfolding p0_def by (cases string) (auto simp: charCodeAt_def)
qed

lemma chooseScalarStyle_plain:
  assumes "chooseScalarStyle string singleLineOnly indentPerLevel w testAmbiguousType = STYLE_PLAIN"
  shows "string \<noteq> [] \<and> hd string \<noteq> 0x3E"
proof -
  from assms obtain sc where s: "scanScalar string singleLineOnly w = Some sc" and p: "plain sc"
    by (auto simp: chooseScalarStyle_def split: option.splits if_splits)
  from scanScalar_plain [OF s p] have n: "string \<noteq> []" and f: "isPlainSafeFirst (unat (hd string))"
    by simp_all
  from f have "unat (hd string) \<noteq> 0x3E" by (simp add: isPlainSafeFirst_def)
  then have "hd string \<noteq> 0x3E" by auto
  with n show ?thesis by simp
qed

lemma stringifyScalar_folded:
  assumes n: "string \<noteq> []"
    and d: "\<not> (compatMode st \<and> string \<in> set DEPRECATED_BOOLEANS_SYNTAX)"
    and c: "chooseScalarStyle string (isKey \<or> (flowLevel st > -1 \<and> int L \<ge> flowLevel st)) (indent st)
              (scalarLineWidth st L) (testImplicitResolving (implicitTypes st)) = STYLE_FOLDED"
  shows "stringifyScalar st string L isKey =
           Inr ([0x3E] @ blockHeader string (indent st) @
                trimTrailingNewline
                  (indentString (foldString string (scalarLineWidth st L)) (indent st * max 1 L)))"
  using n d c by (simp add: stringifyScalar_def Let_def scalarIndent_def)

lemma stringifyScalar_folded_only:
  assumes r: "stringifyScalar st string L isKey = Inr r" and h: "r \<noteq> []" "hd r = 0x3E"
  shows "string \<noteq> [] \<and> \<not> (compatMode st \<and> string \<in> set DEPRECATED_BOOLEANS_SYNTAX) \<and>
         chooseScalarStyle string (isKey \<or> (flowLevel st > -1 \<and> int L \<ge> flowLevel st)) (indent st)
           (scalarLineWidth st L) (testImplicitResolving (implicitTypes st)) = STYLE_FOLDED"
proof -
  let ?style = "chooseScalarStyle string (isKey \<or> (flowLevel st > -1 \<and> int L \<ge> flowLevel st))
      (indent st) (scalarLineWidth st L) (testImplicitResolving (implicitTypes st))"
  from r h have n: "string \<noteq> []"
    by (auto simp: stringifyScalar_def)
  from r h n have d: "\<not> (compatMode st \<and> string \<in> set DEPRECATED_BOOLEANS_SYNTAX)"
    by (auto simp: stringifyScalar_def)
  have "?style = STYLE_FOLDED"
  proof (rule ccontr)
    assume f: "?style \<noteq> STYLE_FOLDED"
    have p: "hd string \<noteq> 0x3E" if "?style = STYLE_PLAIN"
      using chooseScalarStyle_plain [OF that] by simp
    from r n d f have "hd r \<noteq> 0x3E"
      using p
      by (auto simp: stringifyScalar_def Let_def split: if_splits sum.splits)
    with h show False by simp
  qed
  with n d show ?thesis by simp
qed

text \<open>
  C7: the width the scalar encoder \<open>stringifyScalar\<close> uses at nesting level \<open>L\<close>. Where
  \<open>lineWidth\<close> is not -1 it is \<open>max (min lineWidth 40) (lineWidth - indent * max 1 L)\<close>, it
  is at least \<open>min lineWidth 40\<close>, and it does not grow with the level; the encoder
  writes a folded scalar (the one style that depends on a width) exactly when the style
  decision taken with this width says so, and folds the string to this width. Where
  \<open>lineWidth\<close> is -1 the width is -1, which the style decision reads as no limit: it
  never chooses the folded style, and the encoder never writes a folded scalar.
\<close>

theorem scalarLineWidth_budget:
  "(lineWidth st \<noteq> -1 \<longrightarrow>
      scalarLineWidth st L = max (min (lineWidth st) 40) (lineWidth st - int (indent st * max 1 L)) \<and>
      min (lineWidth st) 40 \<le> scalarLineWidth st L \<and>
      (L \<le> L' \<longrightarrow> scalarLineWidth st L' \<le> scalarLineWidth st L) \<and>
      (string \<noteq> [] \<and> \<not> (compatMode st \<and> string \<in> set DEPRECATED_BOOLEANS_SYNTAX) \<and>
       chooseScalarStyle string (isKey \<or> (flowLevel st > -1 \<and> int L \<ge> flowLevel st)) (indent st)
         (max (min (lineWidth st) 40) (lineWidth st - int (indent st * max 1 L)))
         (testImplicitResolving (implicitTypes st)) = STYLE_FOLDED \<longrightarrow>
       stringifyScalar st string L isKey =
         Inr ([0x3E] @ blockHeader string (indent st) @
              trimTrailingNewline
                (indentString
                   (foldString string
                      (max (min (lineWidth st) 40) (lineWidth st - int (indent st * max 1 L))))
                   (indent st * max 1 L)))) \<and>
      (\<forall>r. stringifyScalar st string L isKey = Inr r \<and> r \<noteq> [] \<and> hd r = 0x3E \<longrightarrow>
         chooseScalarStyle string (isKey \<or> (flowLevel st > -1 \<and> int L \<ge> flowLevel st)) (indent st)
           (max (min (lineWidth st) 40) (lineWidth st - int (indent st * max 1 L)))
           (testImplicitResolving (implicitTypes st)) = STYLE_FOLDED)) \<and>
   (lineWidth st = -1 \<longrightarrow>
      scalarLineWidth st L = -1 \<and>
      chooseScalarStyle string singleLineOnly (indent st) (scalarLineWidth st L) testAmbiguousType
        \<noteq> STYLE_FOLDED \<and>
      (\<forall>r. stringifyScalar st string L isKey = Inr r \<longrightarrow> r \<noteq> [] \<and> hd r \<noteq> 0x3E))"
proof (intro conjI impI allI)
  assume "lineWidth st \<noteq> -1"
  then show "scalarLineWidth st L = max (min (lineWidth st) 40) (lineWidth st - int (indent st * max 1 L))"
    by (simp add: scalarLineWidth_def scalarIndent_def)
next
  assume "lineWidth st \<noteq> -1"
  then show "min (lineWidth st) 40 \<le> scalarLineWidth st L"
    by (simp add: scalarLineWidth_def)
next
  assume w: "lineWidth st \<noteq> -1" and l: "L \<le> L'"
  from l have "indent st * max 1 L \<le> indent st * max 1 L'"
    by (intro mult_le_mono2) simp
  then have "int (indent st * max 1 L) \<le> int (indent st * max 1 L')"
    by (simp only: of_nat_le_iff)
  with w show "scalarLineWidth st L' \<le> scalarLineWidth st L"
    by (auto simp: scalarLineWidth_def scalarIndent_def)
next
  assume w: "lineWidth st \<noteq> -1"
    and a: "string \<noteq> [] \<and> \<not> (compatMode st \<and> string \<in> set DEPRECATED_BOOLEANS_SYNTAX) \<and>
       chooseScalarStyle string (isKey \<or> (flowLevel st > -1 \<and> int L \<ge> flowLevel st)) (indent st)
         (max (min (lineWidth st) 40) (lineWidth st - int (indent st * max 1 L)))
         (testImplicitResolving (implicitTypes st)) = STYLE_FOLDED"
  from w have e: "scalarLineWidth st L
      = max (min (lineWidth st) 40) (lineWidth st - int (indent st * max 1 L))"
    by (simp add: scalarLineWidth_def scalarIndent_def)
  from a show "stringifyScalar st string L isKey =
         Inr ([0x3E] @ blockHeader string (indent st) @
              trimTrailingNewline
                (indentString
                   (foldString string
                      (max (min (lineWidth st) 40) (lineWidth st - int (indent st * max 1 L))))
                   (indent st * max 1 L)))"
    unfolding e [symmetric] by (intro stringifyScalar_folded) simp_all
next
  fix r
  assume w: "lineWidth st \<noteq> -1"
    and a: "stringifyScalar st string L isKey = Inr r \<and> r \<noteq> [] \<and> hd r = 0x3E"
  from w have e: "scalarLineWidth st L
      = max (min (lineWidth st) 40) (lineWidth st - int (indent st * max 1 L))"
    by (simp add: scalarLineWidth_def scalarIndent_def)
  from a have "stringifyScalar st string L isKey = Inr r" "r \<noteq> []" "hd r = 0x3E" by simp_all
  from stringifyScalar_folded_only [OF this]
  show "chooseScalarStyle string (isKey \<or> (flowLevel st > -1 \<and> int L \<ge> flowLevel st)) (indent st)
           (max (min (lineWidth st) 40) (lineWidth st - int (indent st * max 1 L)))
           (testImplicitResolving (implicitTypes st)) = STYLE_FOLDED"
    unfolding e by simp
next
  assume "lineWidth st = -1"
  then show "scalarLineWidth st L = -1" by (simp add: scalarLineWidth_def)
next
  assume "lineWidth st = -1"
  then have "scalarLineWidth st L = -1" by (simp add: scalarLineWidth_def)
  then show "chooseScalarStyle string singleLineOnly (indent st) (scalarLineWidth st L) testAmbiguousType
        \<noteq> STYLE_FOLDED"
    by (simp only: chooseScalarStyle_unlimited not_False_eq_True)
next
  fix r
  assume w: "lineWidth st = -1" and r: "stringifyScalar st string L isKey = Inr r"
  from r show "r \<noteq> []"
    by (auto simp: stringifyScalar_def Let_def blockHeader_def dest: chooseScalarStyle_plain
        split: if_splits sum.splits)
next
  fix r
  assume w: "lineWidth st = -1" and r: "stringifyScalar st string L isKey = Inr r"
  from w have e: "scalarLineWidth st L = -1" by (simp add: scalarLineWidth_def)
  show "hd r \<noteq> 0x3E"
  proof
    assume h: "hd r = 0x3E"
    from r have "r \<noteq> []"
      by (auto simp: stringifyScalar_def Let_def blockHeader_def dest: chooseScalarStyle_plain
          split: if_splits sum.splits)
    from stringifyScalar_folded_only [OF r this h] e chooseScalarStyle_unlimited
    show False by simp
  qed
qed

theorem scalarLineWidth_budget_witness:
  "lineWidth (newDumperState emptySchema defaultOptions) \<noteq> -1 \<and>
   scalarLineWidth (newDumperState emptySchema defaultOptions) 1 = 78 \<and>
   scalarLineWidth (newDumperState emptySchema defaultOptions) 30 = 40 \<and>
   (1::nat) \<le> 30 \<and>
   scalarLineWidth (newDumperState emptySchema defaultOptions) 30
     \<le> scalarLineWidth (newDumperState emptySchema defaultOptions) 1 \<and>
   lineWidth (newDumperState emptySchema (defaultOptions\<lparr>lineWidth_opt := Some 4\<rparr>)) \<noteq> -1 \<and>
   chooseScalarStyle [0x61, 0x61, SP, 0x62, 0x62, SP, 0x63, 0x63] False 2 4 (\<lambda>s. False) = STYLE_FOLDED \<and>
   stringifyScalar (newDumperState emptySchema (defaultOptions\<lparr>lineWidth_opt := Some 4\<rparr>))
       [0x61, 0x61, SP, 0x62, 0x62, SP, 0x63, 0x63] 1 False
     = Inr [0x3E, 0x2D, LF, SP, SP, 0x61, 0x61, LF, SP, SP, 0x62, 0x62, LF, SP, SP, 0x63, 0x63] \<and>
   lineWidth (newDumperState emptySchema (defaultOptions\<lparr>lineWidth_opt := Some (-1)\<rparr>)) = -1 \<and>
   chooseScalarStyle ([0x61, SP, 0x62]) False
      (indent (newDumperState emptySchema (defaultOptions\<lparr>lineWidth_opt := Some (-1)\<rparr>)))
      (scalarLineWidth (newDumperState emptySchema (defaultOptions\<lparr>lineWidth_opt := Some (-1)\<rparr>)) 0)
      (\<lambda>s. False) \<noteq> STYLE_FOLDED \<and>
   stringifyScalar (newDumperState emptySchema (defaultOptions\<lparr>lineWidth_opt := Some (-1)\<rparr>))
       [0x61, 0x61, SP, 0x62, 0x62, SP, 0x63, 0x63] 1 False
     = Inr [0x61, 0x61, SP, 0x62, 0x62, SP, 0x63, 0x63]"
proof -
  let ?s = "[0x61, 0x61, SP, 0x62, 0x62, SP, 0x63, 0x63] :: jsstring"
  let ?st4 = "newDumperState emptySchema (defaultOptions\<lparr>lineWidth_opt := Some 4\<rparr>)"
  let ?stu = "newDumperState emptySchema (defaultOptions\<lparr>lineWidth_opt := Some (-1)\<rparr>)"
  have a: "lineWidth (newDumperState emptySchema defaultOptions) = 80"
    "indent (newDumperState emptySchema defaultOptions) = 2"
    by (simp_all add: newDumperState_def defaultOptions_def)
  have b: "lineWidth ?stu = -1"
    by (simp add: newDumperState_def defaultOptions_def)
  have f4: "lineWidth ?st4 = 4" "indent ?st4 = 2" "flowLevel ?st4 = -1" "compatMode ?st4"
    "implicitTypes ?st4 = []"
    by (simp_all add: newDumperState_def defaultOptions_def emptySchema_def Let_def)
  have fu: "indent ?stu = 2" "flowLevel ?stu = -1" "compatMode ?stu" "implicitTypes ?stu = []"
    by (simp_all add: newDumperState_def defaultOptions_def emptySchema_def Let_def)
  have n: "lineWidth (newDumperState emptySchema defaultOptions) \<noteq> -1" by (simp add: a)
  have n4: "lineWidth ?st4 \<noteq> -1" by (simp add: f4)
  have le: "(1::nat) \<le> 30" by simp
  have t: "testImplicitResolving [] = (\<lambda>s. False)"
    by (rule ext) (simp add: testImplicitResolving_def)
  from scalarLineWidth_budget [of "newDumperState emptySchema defaultOptions" 1 30] n le
  have c: "scalarLineWidth (newDumperState emptySchema defaultOptions) 1
            = max (min (lineWidth (newDumperState emptySchema defaultOptions)) 40)
                  (lineWidth (newDumperState emptySchema defaultOptions)
                    - int (indent (newDumperState emptySchema defaultOptions) * max 1 1))"
    "scalarLineWidth (newDumperState emptySchema defaultOptions) 30
            \<le> scalarLineWidth (newDumperState emptySchema defaultOptions) 1"
    by blast+
  from scalarLineWidth_budget [of "newDumperState emptySchema defaultOptions" 30 30] n
  have d: "scalarLineWidth (newDumperState emptySchema defaultOptions) 30
            = max (min (lineWidth (newDumperState emptySchema defaultOptions)) 40)
                  (lineWidth (newDumperState emptySchema defaultOptions)
                    - int (indent (newDumperState emptySchema defaultOptions) * max 1 30))"
    by blast
  from scalarLineWidth_budget [of ?stu 0 0 "[0x61, SP, 0x62]" False False "\<lambda>s. False"] b
  have e: "chooseScalarStyle ([0x61, SP, 0x62]) False (indent ?stu) (scalarLineWidth ?stu 0)
      (\<lambda>s. False) \<noteq> STYLE_FOLDED"
    by blast
  have k: "chooseScalarStyle ?s False 2 4 (\<lambda>s. False) = STYLE_FOLDED"
    by (simp add: chooseScalarStyle_def scanScalar_def charCodeAt_def isPlainSafeFirst_def
        isPlainSafe_def isPrintable_def isWhiteSpace_def notSpaceAt_def needIndentIndicator_def)
  have g: "?s \<noteq> [] \<and> \<not> (compatMode ?st4 \<and> ?s \<in> set DEPRECATED_BOOLEANS_SYNTAX) \<and>
       chooseScalarStyle ?s (False \<or> (flowLevel ?st4 > -1 \<and> int 1 \<ge> flowLevel ?st4)) (indent ?st4)
         (max (min (lineWidth ?st4) 40) (lineWidth ?st4 - int (indent ?st4 * max 1 1)))
         (testImplicitResolving (implicitTypes ?st4)) = STYLE_FOLDED"
    by (simp add: f4 t k DEPRECATED_BOOLEANS_SYNTAX_eval)
  from scalarLineWidth_budget [of ?st4 1 1 ?s False] n4 g
  have "stringifyScalar ?st4 ?s 1 False =
         Inr ([0x3E] @ blockHeader ?s (indent ?st4) @
              trimTrailingNewline
                (indentString
                   (foldString ?s
                      (max (min (lineWidth ?st4) 40) (lineWidth ?st4 - int (indent ?st4 * max 1 1))))
                   (indent ?st4 * max 1 1)))"
    by blast
  also have "foldString ?s (max (min (lineWidth ?st4) 40) (lineWidth ?st4 - int (indent ?st4 * max 1 1)))
      = [0x61, 0x61, LF, 0x62, 0x62, LF, 0x63, 0x63]"
    by (simp add: f4 foldString_def foldLine_def breakMatches_def slice_def sliceFrom_def
        foldStringLoop.simps upt_rec)
  finally have k4: "stringifyScalar ?st4 ?s 1 False
     = Inr [0x3E, 0x2D, LF, SP, SP, 0x61, 0x61, LF, SP, SP, 0x62, 0x62, LF, SP, SP, 0x63, 0x63]"
    by (simp add: f4 blockHeader_def needIndentIndicator_def indentString_def
        trimTrailingNewline_def replicate_two)
  have ku: "stringifyScalar ?stu ?s 1 False = Inr ?s"
    by (simp add: stringifyScalar_def fu b t DEPRECATED_BOOLEANS_SYNTAX_eval Let_def
        chooseScalarStyle_def scanScalar_def scalarLineWidth_def scalarIndent_def charCodeAt_def
        isPlainSafeFirst_def isPlainSafe_def isPrintable_def isWhiteSpace_def notSpaceAt_def)
  from c have c': "scalarLineWidth (newDumperState emptySchema defaultOptions) 1 = 78"
    by (simp add: a)
  from d have d': "scalarLineWidth (newDumperState emptySchema defaultOptions) 30 = 40"
    by (simp add: a)
  from n c' d' le c(2) n4 k k4 b e ku show ?thesis by (intro conjI)
qed

subsection \<open>The indent option\<close>

text \<open>
  C9: an indent option below 1 is clamped to 1 by the constructor, which raises nothing:
  the state built is the state built from indent 1, and so is every document dumped.
\<close>

theorem indent_clamped:
  "indent_opt opts = Some i \<Longrightarrow> i < 1 \<Longrightarrow>
   indent (newDumperState DEFAULT_SCHEMA opts) = 1 \<and>
   newDumperState DEFAULT_SCHEMA opts = newDumperState DEFAULT_SCHEMA (opts\<lparr>indent_opt := Some 1\<rparr>) \<and>
   stringify fuel h data (newDumperState DEFAULT_SCHEMA opts) =
     stringify fuel h data (newDumperState DEFAULT_SCHEMA (opts\<lparr>indent_opt := Some 1\<rparr>))"
proof -
  assume a: "indent_opt opts = Some i" "i < 1"
  then have e: "newDumperState DEFAULT_SCHEMA opts = newDumperState DEFAULT_SCHEMA (opts\<lparr>indent_opt := Some 1\<rparr>)"
    by (simp add: newDumperState_def max_def)
  from a have "indent (newDumperState DEFAULT_SCHEMA opts) = 1"
    by (simp add: newDumperState_def max_def Let_def)
  with e show ?thesis by simp
qed

theorem indent_clamped_witness:
  "indent_opt (defaultOptions\<lparr>indent_opt := Some (-3)\<rparr>) = Some (-3) \<and> (-3::int) < 1 \<and>
   indent (newDumperState emptySchema (defaultOptions\<lparr>indent_opt := Some (-3)\<rparr>)) = 1 \<and>
   stringify 3 [JArray [JString (str ''a'')]] (JRef 0)
       (newDumperState emptySchema (defaultOptions\<lparr>indent_opt := Some (-3)\<rparr>)) =
     stringify 3 [JArray [JString (str ''a'')]] (JRef 0)
       (newDumperState emptySchema (defaultOptions\<lparr>indent_opt := Some (-3), indent_opt := Some 1\<rparr>))"
proof -
  have a: "indent_opt (defaultOptions\<lparr>indent_opt := Some (-3)\<rparr>) = Some (-3)" by simp
  have b: "(-3::int) < 1" by simp
  from indent_clamped [OF a b, of emptySchema 3 "[JArray [JString (str ''a'')]]" "JRef 0"] a b
  show ?thesis by blast
qed

subsection \<open>Evaluation of the worked examples\<close>

lemma detectTypes_empty:
  "implicitTypes st = [] \<Longrightarrow> explicitTypes st = [] \<Longrightarrow> detectTypes st v = Inr (None, v)"
  by (simp add: detectTypes_def detectType_def)


lemma stringifyNode_JRef:
  "stringifyNode (Suc n) h level (JRef a) b c k st =
     stringifyNodeBody (stringifyNode n h) h level (JRef a) b c k st"
  by simp

lemma stringifyScalar_letter:
  "0x61 \<le> unat c \<Longrightarrow> unat c \<le> 0x7A \<Longrightarrow> c \<noteq> 0x79 \<Longrightarrow> c \<noteq> 0x6E \<Longrightarrow> implicitTypes st = [] \<Longrightarrow>
   lineWidth st = 80 \<Longrightarrow>
   stringifyScalar st [c] level isKey = Inr [c]"
proof -
  assume a: "0x61 \<le> unat c" "unat c \<le> 0x7A" "c \<noteq> 0x79" "c \<noteq> 0x6E" "implicitTypes st = []"
    and lw: "lineWidth st = 80"
  have p: "isPrintable (unat c)" "isPlainSafe (unat c)" "isPlainSafeFirst (unat c)" "\<not> isWhiteSpace (unat c)"
    "unat c \<noteq> LINE_FEED"
    using a(1,2) by (auto simp: isPrintable_def isPlainSafe_def isPlainSafeFirst_def isWhiteSpace_def)
  have s: "scanScalar [c] sl w = Some \<lparr>hasLineBreak = False, hasFoldableLine = False,
              previousLineBreak = -1, plain = True\<rparr>" if "w = -1 \<or> w \<ge> 1" for sl w
    using that by (cases sl) (auto simp: scanScalar_def charCodeAt_def p)
  have w: "scalarLineWidth st level = -1 \<or> scalarLineWidth st level \<ge> 1"
    by (auto simp: scalarLineWidth_def lw)
  have "chooseScalarStyle [c] sl (indent st) (scalarLineWidth st level)
           (\<lambda>s. testImplicitResolving (implicitTypes st) s) = STYLE_PLAIN" for sl
    by (simp add: chooseScalarStyle_def s [OF w] a(5) testImplicitResolving_def)
  moreover from a(1) have "c \<noteq> 0x59" "c \<noteq> 0x4E" by auto
  ultimately show ?thesis using a(3,4)
    by (simp add: stringifyScalar_def DEPRECATED_BOOLEANS_SYNTAX_eval Let_def)
qed

lemma exampleState_fields:
  "indent exampleState = 2" "arrayIndent exampleState" "\<not> skipInvalid exampleState"
  "flowLevel exampleState = -1" "sortKeys exampleState = SortKeysBool False"
  "lineWidth exampleState = 80" "useAnchors exampleState" "compatMode exampleState"
  "\<not> condenseFlow exampleState" "implicitTypes exampleState = []" "explicitTypes exampleState = []"
  "duplicates exampleState = []" "usedDuplicates exampleState = {}"
  by (simp_all add: exampleState_def newDumperState_def emptySchema_def defaultOptions_def)

lemma render_append: "render (ps @ qs) = render ps @ render qs"
  by (simp add: render_def)

lemma resolveStyle_frame:
  "resolveStyle (st\<lparr>duplicates := ds, usedDuplicates := us\<rparr>) type = resolveStyle st type"
  by (simp add: resolveStyle_def)

lemma detectTypeLoop_frame:
  "detectTypeLoop (st\<lparr>duplicates := ds, usedDuplicates := us\<rparr>) explicit ts v
     = detectTypeLoop st explicit ts v"
  by (induction ts) (auto simp: resolveStyle_frame Let_def split: option.splits represent.splits)

lemma detectTypes_frame:
  "detectTypes (st\<lparr>duplicates := ds, usedDuplicates := us\<rparr>) v = detectTypes st v"
proof -
  have dt: "detectType (st\<lparr>duplicates := ds, usedDuplicates := us\<rparr>) v e = detectType st v e" for e
    by (simp add: detectType_def detectTypeLoop_frame)
  show ?thesis unfolding detectTypes_def dt by (rule refl)
qed

lemma getDuplicateReferences_detectTypes:
  "getDuplicateReferences fuel h data st = Some st1 \<Longrightarrow> detectTypes st1 v = detectTypes st v"
proof -
  assume "getDuplicateReferences fuel h data st = Some st1"
  then obtain ds where "st1 = st\<lparr>duplicates := duplicates st @ ds, usedDuplicates := {}\<rparr>"
    by (auto simp: getDuplicateReferences_def split: option.splits)
  then show ?thesis by (simp add: detectTypes_frame)
qed

subsection \<open>The string returned by stringify\<close>











subsection \<open>Flow mappings and the condensed flow\<close>

lemma newDumperState_examples:
  "newDumperState emptySchema (defaultOptions\<lparr>flowLevel_opt := Some 0\<rparr>)
     = exampleState\<lparr>flowLevel := 0\<rparr>"
  "newDumperState emptySchema (defaultOptions\<lparr>flowLevel_opt := Some 0, condenseFlow_opt := Some True\<rparr>)
     = exampleState\<lparr>flowLevel := 0, condenseFlow := True\<rparr>"
  "newDumperState emptySchema (defaultOptions\<lparr>skipInvalid_opt := Some True\<rparr>)
     = exampleState\<lparr>skipInvalid := True\<rparr>"
  "newDumperState emptySchema (defaultOptions\<lparr>useAnchors_opt := Some False\<rparr>)
     = exampleState\<lparr>useAnchors := False\<rparr>"
  "newDumperState emptySchema (defaultOptions\<lparr>arrayIndent_opt := Some False\<rparr>)
     = exampleState\<lparr>arrayIndent := False\<rparr>"
  "newDumperState emptySchema defaultOptions = exampleState"
  by (simp_all add: exampleState_def newDumperState_def defaultOptions_def)

lemma stringifyNodeBody_JString:
  "implicitTypes st = [] \<Longrightarrow> explicitTypes st = [] \<Longrightarrow>
   stringifyNodeBody node h level (JString s) b c k st =
     (case stringifyScalar st s level k of Inl e \<Rightarrow> Inl e | Inr t \<Rightarrow> Inr (Some [Text t], st))"
  by (simp add: stringifyNodeBody_def stringifyLeaf_def detectTypes_empty refAddr_def wrapTag_def
           split: sum.splits)

lemma stringifyNodeBody_JFunction:
  "implicitTypes st = [] \<Longrightarrow> explicitTypes st = [] \<Longrightarrow>
   stringifyNodeBody node h level JFunction b c k st =
     (if skipInvalid st then Inr (None, st) else Inl UnacceptableKind)"
  by (simp add: stringifyNodeBody_def stringifyLeaf_def detectTypes_empty refAddr_def)

lemmas stringifyNodeBody_JRef = stringifyNodeBody_def [of _ _ _ "JRef a" for a]

lemmas eval_simps =
  stringify_def stringifyPieces_def getDuplicateReferences_def exampleState_fields
  refAddr_def entries_def stringifyNodeBody_JRef stringifyNodeBody_JFunction
  stringifyNodeBody_JString stringifyCollection_def
  detectTypes_empty stringifyFlowMapping_def stringifyFlowSequence_def
  stringifyBlockMapping_def stringifyBlockSequence_def sortObjectKeys_def
  stringifyScalar_letter getProperty_def
  wrapTag_def render_def renderPiece_def startsWithLineFeed_def generateNextLine_def
  replicate_two setAdd_def

text \<open>
  C6: what the code does on the mapping of \<open>a\<close> to \<open>x\<close> and \<open>b\<close> to \<open>z\<close> in flow layout.
  With \<open>condenseFlow\<close> the buffer of a pair starts with the quote mark and the separator
  comma-space is added after it, so the pairs are joined by quote, comma, space: the
  document is \<open>{"a":x", b":z}\<close>, not pairs joined by a bare comma. Without
  \<open>condenseFlow\<close> the pairs are joined by comma-space, and a condensed flow sequence is
  joined by the bare comma.
\<close>

theorem flowMapping_condensed_separator:
  "stringify (Suc (Suc 0)) twoPairs (JRef 0)
     (newDumperState emptySchema (defaultOptions\<lparr>flowLevel_opt := Some 0, condenseFlow_opt := Some True\<rparr>))
     = Inr [0x7B, QUOTE2, 0x61, QUOTE2, 0x3A, 0x78, QUOTE2, 0x2C, SP, 0x62, QUOTE2, 0x3A, 0x7A, 0x7D, LF] \<and>
   stringify (Suc (Suc 0)) twoPairs (JRef 0)
     (newDumperState emptySchema (defaultOptions\<lparr>flowLevel_opt := Some 0\<rparr>))
     = Inr [0x7B, 0x61, 0x3A, SP, 0x78, 0x2C, SP, 0x62, 0x3A, SP, 0x7A, 0x7D, LF] \<and>
   stringify (Suc (Suc 0)) twoItems (JRef 0)
     (newDumperState emptySchema (defaultOptions\<lparr>flowLevel_opt := Some 0, condenseFlow_opt := Some True\<rparr>))
     = Inr [0x5B, 0x78, 0x2C, 0x7A, 0x5D, LF]"
  unfolding newDumperState_examples
  by (simp add: eval_simps twoPairs_def twoItems_def)

subsection \<open>Invalid values\<close>

lemma detectTypeLoop_object:
  "detectTypeLoop st explicit ts v = Inr (Some (tag, object)) \<Longrightarrow> object = v \<or> (\<exists>s. object = JString s)"
  by (induction ts) (auto simp: Let_def split: if_splits option.splits represent.splits)

lemma detectTypes_object:
  "detectTypes st v = Inr (tag, object) \<Longrightarrow> object = v \<or> (\<exists>s. object = JString s)"
  unfolding detectTypes_def detectType_def
  by (auto split: sum.splits option.splits prod.splits dest: detectTypeLoop_object)

lemma stringifyLeaf_state:
  "stringifyLeaf st tag object level isKey = Inr (r, st') \<Longrightarrow> st' = st"
  unfolding stringifyLeaf_def
  by (auto split: jsval.splits if_splits sum.splits)

lemma stringifyNodeBody_JString_state:
  "stringifyNodeBody node h level (JString s) block compact isKey st = Inr (r, st') \<Longrightarrow> st' = st"
proof -
  assume a: "stringifyNodeBody node h level (JString s) block compact isKey st = Inr (r, st')"
  then obtain tag object where d: "detectTypes st (JString s) = Inr (tag, object)"
    by (auto simp: stringifyNodeBody_def split: sum.splits)
  from detectTypes_object [OF d] have "refAddr h object = None" by (auto simp: refAddr_def)
  with a d have "stringifyLeaf st tag object level isKey = Inr (r, st')"
    by (simp add: stringifyNodeBody_def Let_def)
  then show ?thesis by (rule stringifyLeaf_state)
qed

lemma newDumperState_skipInvalid_flow:
  "newDumperState emptySchema (defaultOptions\<lparr>skipInvalid_opt := Some True, flowLevel_opt := Some 0\<rparr>)
     = exampleState\<lparr>skipInvalid := True, flowLevel := 0\<rparr>"
  by (simp add: exampleState_def newDumperState_def defaultOptions_def)

text \<open>
  C5: with \<open>skipInvalid\<close> an unsupported value is left out, but the separator of the
  entries after it is chosen by their position in the container, not by what has been
  written. When the first entry is the one left out, the second is written with the
  separator in front of it: a flow sequence and a flow mapping open with a comma, a
  block sequence and a block mapping at the root open with a line feed. The same
  containers without the unsupported entry are written without it.
\<close>

theorem skipInvalid_first_entry_separator:
  "stringify (Suc (Suc 0)) invalidFirstItems (JRef 0)
     (newDumperState emptySchema (defaultOptions\<lparr>skipInvalid_opt := Some True, flowLevel_opt := Some 0\<rparr>))
     = Inr (str ''[, z, w]'' @ [LF]) \<and>
   stringify (Suc (Suc 0)) validItems (JRef 0)
     (newDumperState emptySchema (defaultOptions\<lparr>skipInvalid_opt := Some True, flowLevel_opt := Some 0\<rparr>))
     = Inr (str ''[z, w]'' @ [LF]) \<and>
   stringify (Suc (Suc 0)) invalidFirstPairs (JRef 0)
     (newDumperState emptySchema (defaultOptions\<lparr>skipInvalid_opt := Some True, flowLevel_opt := Some 0\<rparr>))
     = Inr (str ''{, b: z, c: w}'' @ [LF]) \<and>
   stringify (Suc (Suc 0)) validPairs (JRef 0)
     (newDumperState emptySchema (defaultOptions\<lparr>skipInvalid_opt := Some True, flowLevel_opt := Some 0\<rparr>))
     = Inr (str ''{b: z, c: w}'' @ [LF]) \<and>
   stringify (Suc (Suc 0)) invalidFirstItems (JRef 0)
     (newDumperState emptySchema (defaultOptions\<lparr>skipInvalid_opt := Some True\<rparr>))
     = Inr ([LF] @ str ''- z'' @ [LF] @ str ''- w'' @ [LF]) \<and>
   stringify (Suc (Suc 0)) validItems (JRef 0)
     (newDumperState emptySchema (defaultOptions\<lparr>skipInvalid_opt := Some True\<rparr>))
     = Inr (str ''- z'' @ [LF] @ str ''- w'' @ [LF]) \<and>
   stringify (Suc (Suc 0)) invalidFirstPairs (JRef 0)
     (newDumperState emptySchema (defaultOptions\<lparr>skipInvalid_opt := Some True\<rparr>))
     = Inr ([LF] @ str ''b: z'' @ [LF] @ str ''c: w'' @ [LF]) \<and>
   stringify (Suc (Suc 0)) validPairs (JRef 0)
     (newDumperState emptySchema (defaultOptions\<lparr>skipInvalid_opt := Some True\<rparr>))
     = Inr (str ''b: z'' @ [LF] @ str ''c: w'' @ [LF]) \<and>
   stringify (Suc (Suc 0)) invalidFirstPairs (JRef 0) (newDumperState emptySchema defaultOptions)
     = Inl UnacceptableKind \<and>
   stringify (Suc (Suc 0)) invalidFirstItems (JRef 0) (newDumperState emptySchema defaultOptions)
     = Inl UnacceptableKind"
  unfolding newDumperState_examples newDumperState_skipInvalid_flow
  by (simp add: eval_simps invalidFirstPairs_def invalidFirstItems_def validPairs_def
      validItems_def str_def)

subsection \<open>Rules for the container renderers\<close>














lemma isText_wrapTag: "list_all isText ps \<Longrightarrow> list_all isText (wrapTag tag ps)"
  by (simp add: wrapTag_def isText_def split: option.splits)








subsection \<open>Anchors and aliases\<close>


















lemma stringifyNodeBody_cases:
  obtains (Error) e where "detectTypes st x = Inl e"
      "stringifyNodeBody node h level x block compact isKey st = Inl e"
  | (Leaf) tag object where "detectTypes st x = Inr (tag, object)" "refAddr h object = None"
      "stringifyNodeBody node h level x block compact isKey st
         = stringifyLeaf st tag object level isKey"
  | (Collection) tag a block' compact' where "detectTypes st x = Inr (tag, JRef a)"
      "x = JRef a" "a < length h"
      "stringifyNodeBody node h level x block compact isKey st
         = stringifyCollection node h a tag level block' compact' (indexOf (duplicates st) a) st"
proof (cases "detectTypes st x")
  case (Inl e)
  then show ?thesis using Error by (simp add: stringifyNodeBody_def)
next
  case (Inr p)
  obtain tag object where p: "p = (tag, object)" by (cases p)
  show ?thesis
  proof (cases "refAddr h object")
    case None
    with Inr p show ?thesis using Leaf by (simp add: stringifyNodeBody_def Let_def)
  next
    case (Some a)
    then have o: "object = JRef a" "a < length h"
      by (auto simp: refAddr_def split: jsval.splits if_splits)
    with detectTypes_object [OF Inr [unfolded p]] have "x = JRef a" by auto
    with Inr p Some o show ?thesis using Collection
      by (simp add: stringifyNodeBody_def Let_def)
  qed
qed










lemma stringifyNodeBody_collection:
  "detectTypes st x = Inr (tag, JRef a) \<Longrightarrow> a < length h \<Longrightarrow>
   stringifyNodeBody node h level x block compact isKey st
     = stringifyCollection node h a tag level (blockAt st level block)
         (compactAt st tag (indexOf (duplicates st) a \<noteq> -1) level compact)
         (indexOf (duplicates st) a) st"
  by (simp add: stringifyNodeBody_def Let_def refAddr_def blockAt_def compactAt_def)



















subsection \<open>The indentation of sequences\<close>

lemma withArrayIndent_fields:
  "condenseFlow (withArrayIndent f st) = condenseFlow st"
  "indent (withArrayIndent f st) = indent st"
  "sortKeys (withArrayIndent f st) = sortKeys st"
  "duplicates (withArrayIndent f st) = duplicates st"
  "usedDuplicates (withArrayIndent f st) = usedDuplicates st"
  "skipInvalid (withArrayIndent f st) = skipInvalid st"
  "flowLevel (withArrayIndent f st) = flowLevel st"
  by (simp_all add: withArrayIndent_def)

lemma liftNode_simps:
  "liftNode g (Inl e) = Inl e" "liftNode g (Inr (r, st)) = Inr (r, g st)"
  by (simp_all add: liftNode_def)

lemma liftLoop_simps:
  "liftLoop g (Inl e) = Inl e" "liftLoop g (Inr (r, st)) = Inr (r, g st)"
  by (simp_all add: liftLoop_def)

lemma flowMappingLoop_flagFree:
  assumes n: "flagFree f node"
  shows "stringifyFlowMappingLoop node object level keys index result (withArrayIndent f st)
     = liftLoop (withArrayIndent f) (stringifyFlowMappingLoop node object level keys index result st)"
proof (induction keys arbitrary: index result st)
  case Nil
  show ?case by (simp add: liftLoop_def)
next
  case (Cons objectKey keys)
  let ?g = "withArrayIndent f"
  have nk: "node l x b c k (?g s) = liftNode ?g (node l x b c k s)"
    for l x b c k s using n unfolding flagFree_def by blast
  define buf where "buf cf cf1 keyString =
      ((if cf then [Text [QUOTE2]] else []) @ (if index \<noteq> 0 then [Text [0x2C, SP]] else [])) @
      (if length (render keyString) > 1024 then [Text [0x3F, SP]] else []) @
      keyString @
      [Text ((if cf1 then [QUOTE2] else []) @ [0x3A] @ (if cf1 then [] else [SP]))]"
    for cf cf1 :: bool and keyString :: "piece list"
  have step: "stringifyFlowMappingLoop node object level (objectKey # keys) index result s =
      (case node level (getProperty object objectKey) False False False s1 of
         Inl e \<Rightarrow> Inl e
       | Inr (None, s2) \<Rightarrow> stringifyFlowMappingLoop node object level keys (Suc index) result s2
       | Inr (Some valueString, s2) \<Rightarrow>
           stringifyFlowMappingLoop node object level keys (Suc index)
             (result @ buf (condenseFlow s) (condenseFlow s1) keyString @ valueString) s2)"
    if "node level (JString objectKey) False False False s = Inr (Some keyString, s1)"
    for s s1 keyString
    unfolding buf_def stringifyFlowMappingLoop.simps Let_def that by simp
  show ?case
  proof (cases "node level (JString objectKey) False False False st")
    case (Inl e)
    then show ?thesis by (simp add: nk liftNode_simps liftLoop_simps)
  next
    case (Inr p)
    obtain r st1 where p: "p = (r, st1)" by (cases p)
    from Inr p have k1: "node level (JString objectKey) False False False st = Inr (r, st1)" by simp
    then have k2: "node level (JString objectKey) False False False (?g st) = Inr (r, ?g st1)"
      by (simp add: nk liftNode_simps)
    show ?thesis
    proof (cases r)
      case None
      with k1 k2 Cons.IH [of "Suc index" result st1] show ?thesis by simp
    next
      case (Some keyString)
      show ?thesis
      proof (cases "node level (getProperty object objectKey) False False False st1")
        case (Inl e)
        then show ?thesis
          unfolding step [OF k1 [unfolded Some]] step [OF k2 [unfolded Some]]
          by (simp add: nk liftNode_simps liftLoop_simps)
      next
        case Inr2: (Inr p2)
        obtain r2 st2 where p2: "p2 = (r2, st2)" by (cases p2)
        show ?thesis
          unfolding step [OF k1 [unfolded Some]] step [OF k2 [unfolded Some]] withArrayIndent_fields
          using Inr2 p2 Cons.IH [of "Suc index" _ st2]
          by (cases r2) (simp_all add: nk liftNode_simps)
      qed
    qed
  qed
qed

lemma blockMappingLoop_flagFree:
  assumes n: "flagFree f node"
  shows "stringifyBlockMappingLoop node object tag level compact keys index result (withArrayIndent f st)
     = liftLoop (withArrayIndent f)
         (stringifyBlockMappingLoop node object tag level compact keys index result st)"
proof (induction keys arbitrary: index result st)
  case Nil
  show ?case by (simp add: liftLoop_def)
next
  case (Cons objectKey keys)
  let ?g = "withArrayIndent f"
  have nk: "node l x b c k (?g s) = liftNode ?g (node l x b c k s)"
    for l x b c k s using n unfolding flagFree_def by blast
  define ep where "ep keyString =
      ((tag \<noteq> None \<and> tag \<noteq> Some [0x3F]) \<or> length (render keyString) > 1024)"
    for keyString :: "piece list"
  define buf where "buf i i1 keyString valueString =
      ((if \<not> compact \<or> index \<noteq> 0 then [Text (generateNextLine i level)] else []) @
       (if ep keyString
        then [Text (if startsWithLineFeed keyString then [0x3F] else [0x3F, SP])]
        else []) @
       keyString @
       (if ep keyString then [Text (generateNextLine i1 level)] else [])) @
      [Text (if startsWithLineFeed valueString then [0x3A] else [0x3A, SP])] @
      valueString"
    for i i1 :: nat and keyString valueString :: "piece list"
  have step: "stringifyBlockMappingLoop node object tag level compact (objectKey # keys) index result s =
      (case node (level + 1) (getProperty object objectKey) True (ep keyString) False s1 of
         Inl e \<Rightarrow> Inl e
       | Inr (None, s2) \<Rightarrow>
           stringifyBlockMappingLoop node object tag level compact keys (Suc index) result s2
       | Inr (Some valueString, s2) \<Rightarrow>
           stringifyBlockMappingLoop node object tag level compact keys (Suc index)
             (result @ buf (indent s) (indent s1) keyString valueString) s2)"
    if "node (level + 1) (JString objectKey) True True True s = Inr (Some keyString, s1)"
    for s s1 keyString
    unfolding buf_def ep_def stringifyBlockMappingLoop.simps Let_def that by simp
  show ?case
  proof (cases "node (level + 1) (JString objectKey) True True True st")
    case (Inl e)
    then show ?thesis by (simp add: nk liftNode_simps liftLoop_simps)
  next
    case (Inr p)
    obtain r st1 where p: "p = (r, st1)" by (cases p)
    from Inr p have k1: "node (level + 1) (JString objectKey) True True True st = Inr (r, st1)"
      by simp
    then have k2: "node (level + 1) (JString objectKey) True True True (?g st) = Inr (r, ?g st1)"
      by (simp add: nk liftNode_simps)
    show ?thesis
    proof (cases r)
      case None
      with k1 k2 Cons.IH [of "Suc index" result st1] show ?thesis by simp
    next
      case (Some keyString)
      show ?thesis
      proof (cases "node (level + 1) (getProperty object objectKey) True (ep keyString) False st1")
        case (Inl e)
        then show ?thesis
          unfolding step [OF k1 [unfolded Some]] step [OF k2 [unfolded Some]]
          by (simp add: nk liftNode_simps liftLoop_simps)
      next
        case Inr2: (Inr p2)
        obtain r2 st2 where p2: "p2 = (r2, st2)" by (cases p2)
        show ?thesis
          unfolding step [OF k1 [unfolded Some]] step [OF k2 [unfolded Some]] withArrayIndent_fields
          using Inr2 p2 Cons.IH [of "Suc index" _ st2]
          by (cases r2) (simp_all add: nk liftNode_simps)
      qed
    qed
  qed
qed

lemma flowMapping_flagFree:
  "flagFree f node \<Longrightarrow>
   stringifyFlowMapping node object level (withArrayIndent f st)
     = liftLoop (withArrayIndent f) (stringifyFlowMapping node object level st)"
  unfolding stringifyFlowMapping_def
  by (simp add: flowMappingLoop_flagFree liftLoop_def split: sum.splits)

lemma blockMapping_flagFree:
  "flagFree f node \<Longrightarrow>
   stringifyBlockMapping node object tag level compact (withArrayIndent f st)
     = liftLoop (withArrayIndent f) (stringifyBlockMapping node object tag level compact st)"
  unfolding stringifyBlockMapping_def
  by (simp add: blockMappingLoop_flagFree withArrayIndent_fields liftLoop_def split: sum.splits)

lemma detectTypeLoop_types:
  assumes s: "styleMap st' = styleMap st"
  shows "detectTypeLoop st' explicit ts v = detectTypeLoop st explicit ts v"
proof -
  have r: "resolveStyle st' t = resolveStyle st t" for t
    unfolding resolveStyle_def s by (rule refl)
  show ?thesis
  proof (induction ts)
    case Nil
    show ?case by simp
  next
    case (Cons t ts)
    show ?case unfolding detectTypeLoop.simps r Cons.IH by (rule refl)
  qed
qed

lemma detectTypes_types:
  assumes "implicitTypes st' = implicitTypes st" "explicitTypes st' = explicitTypes st"
    "styleMap st' = styleMap st"
  shows "detectTypes st' v = detectTypes st v"
proof -
  have dt: "detectType st' v e = detectType st v e" for e
    unfolding detectType_def assms(1,2) by (rule detectTypeLoop_types [OF assms(3)])
  show ?thesis unfolding detectTypes_def dt by (rule refl)
qed

lemma stringifyScalar_withArrayIndent:
  "stringifyScalar (withArrayIndent f st) s level isKey = stringifyScalar st s level isKey"
  by (simp add: stringifyScalar_def scalarIndent_def scalarLineWidth_def withArrayIndent_def
           cong: if_cong)

lemma stringifyLeaf_flagFree:
  "stringifyLeaf (withArrayIndent f st) tag object level isKey
     = liftNode (withArrayIndent f) (stringifyLeaf st tag object level isKey)"
  unfolding stringifyLeaf_def
  by (simp add: stringifyScalar_withArrayIndent withArrayIndent_fields liftNode_def
           split: jsval.splits sum.splits)

lemma stringifyCollection_flagFree:
  assumes n: "flagFree f node" and o: "h ! a = JObject kvs"
  shows "stringifyCollection node h a tag level block compact duplicateIndex (withArrayIndent f st)
     = liftNode (withArrayIndent f)
         (stringifyCollection node h a tag level block compact duplicateIndex st)"
proof -
  let ?g = "withArrayIndent f"
  have m: "(?g st)\<lparr>usedDuplicates := insert a (usedDuplicates (?g st))\<rparr>
            = ?g (st\<lparr>usedDuplicates := insert a (usedDuplicates st)\<rparr>)"
    by (simp add: withArrayIndent_def)
  have s1: "(if duplicateIndex \<noteq> -1 then (?g st)\<lparr>usedDuplicates := insert a (usedDuplicates (?g st))\<rparr>
             else ?g st)
            = ?g (if duplicateIndex \<noteq> -1 then st\<lparr>usedDuplicates := insert a (usedDuplicates st)\<rparr>
                  else st)"
    by (simp add: m)
  show ?thesis
    unfolding stringifyCollection_def Let_def o jsobj.case s1
      blockMapping_flagFree [OF n] flowMapping_flagFree [OF n]
    by (simp add: withArrayIndent_fields liftNode_def liftLoop_def split: sum.splits)
qed

lemma stringifyNode_flagFree:
  "noArrays h \<Longrightarrow> flagFree f (stringifyNode fuel h)"
proof (induction fuel)
  case 0
  show ?case by (simp add: flagFree_def liftNode_def)
next
  case (Suc fuel)
  then have n: "flagFree f (stringifyNode fuel h)" by simp
  let ?g = "withArrayIndent f"
  show ?case unfolding flagFree_def
  proof (intro allI)
    fix level x block compact isKey st
    have d: "detectTypes (?g st) x = detectTypes st x"
      by (rule detectTypes_types) (simp_all add: withArrayIndent_def)
    show "stringifyNode (Suc fuel) h level x block compact isKey (?g st)
            = liftNode ?g (stringifyNode (Suc fuel) h level x block compact isKey st)"
    proof (cases rule: stringifyNodeBody_cases [of st x "stringifyNode fuel h" h level block compact isKey])
      case (Error e)
      then show ?thesis by (simp add: stringifyNodeBody_def d liftNode_def)
    next
      case (Leaf tag object)
      then show ?thesis
        by (simp add: stringifyNodeBody_def d Let_def stringifyLeaf_flagFree)
    next
      case (Collection tag a block' compact')
      with Suc.prems obtain kvs where o: "h ! a = JObject kvs"
        by (cases "h ! a") (auto simp: noArrays_def list_all_length)
      from Collection(1) d have d': "detectTypes (?g st) x = Inr (tag, JRef a)" by simp
      have e: "blockAt (?g st) level block = blockAt st level block"
        "compactAt (?g st) tag dup level compact = compactAt st tag dup level compact" for dup
        by (simp_all add: blockAt_def compactAt_def withArrayIndent_fields)
      show ?thesis
        unfolding stringifyNode.simps
          stringifyNodeBody_collection [OF Collection(1) Collection(3)]
          stringifyNodeBody_collection [OF d' Collection(3)]
          e withArrayIndent_fields
        by (rule stringifyCollection_flagFree [OF n o])
    qed
  qed
qed

lemma getDuplicateReferences_withArrayIndent:
  "getDuplicateReferences fuel h data (withArrayIndent f st)
     = map_option (withArrayIndent f) (getDuplicateReferences fuel h data st)"
  by (simp add: getDuplicateReferences_def withArrayIndent_def split: option.splits)

lemma stringifyPieces_flagFree:
  assumes n: "noArrays h"
  shows "stringifyPieces fuel h data (withArrayIndent f st) = stringifyPieces fuel h data st"
proof -
  let ?g = "withArrayIndent f"
  have nk: "stringifyNode fuel h l x b c k (?g s) = liftNode ?g (stringifyNode fuel h l x b c k s)"
    for l x b c k s
    using stringifyNode_flagFree [OF n, of f fuel] unfolding flagFree_def by blast
  have u: "useAnchors (?g st) = useAnchors st" by (simp add: withArrayIndent_def)
  show ?thesis
  proof (cases "if useAnchors st then getDuplicateReferences fuel h data st else Some st")
    case None
    then show ?thesis
      by (auto simp: stringifyPieces_def u getDuplicateReferences_withArrayIndent split: if_splits)
  next
    case (Some st1)
    then have "(if useAnchors (?g st) then getDuplicateReferences fuel h data (?g st) else Some (?g st))
                 = Some (?g st1)"
      by (auto simp: u getDuplicateReferences_withArrayIndent split: if_splits)
    with Some show ?thesis
      by (simp add: stringifyPieces_def nk liftNode_def split: sum.splits)
  qed
qed

lemma flagFreeAt_D:
  "flagFreeAt node x \<Longrightarrow>
   node level x block compact isKey (withArrayIndent f st)
     = liftNode (withArrayIndent f) (node level x block compact isKey st)"
  unfolding flagFreeAt_def by blast

lemma flowSequenceLoop_flagFree:
  "\<forall>x\<in>set xs. flagFreeAt node x \<Longrightarrow>
   stringifyFlowSequenceLoop node level xs index result (withArrayIndent f st)
     = liftLoop (withArrayIndent f) (stringifyFlowSequenceLoop node level xs index result st)"
proof (induction xs arbitrary: index result st)
  case Nil
  show ?case by (simp add: liftLoop_simps)
next
  case (Cons x xs)
  then have x: "flagFreeAt node x" and xs: "\<forall>x\<in>set xs. flagFreeAt node x" by simp_all
  note n = flagFreeAt_D [OF x, of level False False False f st]
  note IH = Cons.IH [OF xs]
  show ?case
  proof (cases "node level x False False False st")
    case (Inl e)
    then show ?thesis by (simp add: n liftNode_simps liftLoop_simps)
  next
    case (Inr p)
    obtain r st' where p: "p = (r, st')" by (cases p)
    show ?thesis
      by (cases r) (simp_all add: n Inr p liftNode_simps IH withArrayIndent_fields)
  qed
qed

lemma flowSequence_flagFree:
  "\<forall>x\<in>set xs. flagFreeAt node x \<Longrightarrow>
   stringifyFlowSequence node xs level (withArrayIndent f st)
     = liftLoop (withArrayIndent f) (stringifyFlowSequence node xs level st)"
  unfolding stringifyFlowSequence_def
  by (simp add: flowSequenceLoop_flagFree liftLoop_def split: sum.splits)

lemma blockSequenceLoop_flagFree:
  "\<forall>x\<in>set xs. flagFreeAt node x \<Longrightarrow>
   stringifyBlockSequenceLoop node level compact xs index result (withArrayIndent f st)
     = liftLoop (withArrayIndent f) (stringifyBlockSequenceLoop node level compact xs index result st)"
proof (induction xs arbitrary: index result st)
  case Nil
  show ?case by (simp add: liftLoop_simps)
next
  case (Cons x xs)
  then have x: "flagFreeAt node x" and xs: "\<forall>x\<in>set xs. flagFreeAt node x" by simp_all
  note n = flagFreeAt_D [OF x, of "Suc level" True True False f st]
  note IH = Cons.IH [OF xs]
  show ?case
  proof (cases "node (Suc level) x True True False st")
    case (Inl e)
    then show ?thesis by (simp add: n liftNode_simps liftLoop_simps)
  next
    case (Inr p)
    obtain r st' where p: "p = (r, st')" by (cases p)
    show ?thesis
      by (cases r) (simp_all add: n Inr p liftNode_simps IH withArrayIndent_fields)
  qed
qed

lemma blockSequence_flagFree:
  "\<forall>x\<in>set xs. flagFreeAt node x \<Longrightarrow>
   stringifyBlockSequence node xs level compact (withArrayIndent f st)
     = liftLoop (withArrayIndent f) (stringifyBlockSequence node xs level compact st)"
  unfolding stringifyBlockSequence_def
  by (simp add: blockSequenceLoop_flagFree liftLoop_def split: sum.splits)

lemma withArrayIndent_twice: "withArrayIndent f (withArrayIndent g st) = withArrayIndent f st"
  by (simp add: withArrayIndent_def)

lemma liftLoop_withArrayIndent:
  "liftLoop (withArrayIndent f) (liftLoop (withArrayIndent g) res) = liftLoop (withArrayIndent f) res"
  by (simp add: liftLoop_def withArrayIndent_twice split: sum.splits)

text \<open>The sequence at level \<open>L\<close> without the flag, and at level \<open>L - 1\<close> with it.\<close>

lemma stringifyCollection_arrayLevel:
  assumes o: "h ! a = JArray xs" and n: "\<forall>x\<in>set xs. flagFreeAt node x"
  shows "stringifyCollection node h a tag L block compact duplicateIndex (withArrayIndent False st)
     = liftNode (withArrayIndent False)
         (stringifyCollection node h a tag (L - 1) block compact duplicateIndex
            (withArrayIndent True st))"
proof -
  let ?F = "withArrayIndent False" and ?T = "withArrayIndent True"
  define st1 where "st1 = (if duplicateIndex \<noteq> -1 then st\<lparr>usedDuplicates := insert a (usedDuplicates st)\<rparr>
                  else st)"
  have s: "(if duplicateIndex \<noteq> -1 then (withArrayIndent g st)\<lparr>usedDuplicates := insert a (usedDuplicates (withArrayIndent g st))\<rparr>
             else withArrayIndent g st) = withArrayIndent g st1" for g
    by (simp add: withArrayIndent_def st1_def)
  have a: "arrayIndent (?T st1)" "\<not> arrayIndent (?F st1)" by (simp_all add: withArrayIndent_def)
  have l: "(if \<not> arrayIndent (?F st1) \<and> L > 0 then L - 1 else L) = L - 1"
    "(if \<not> arrayIndent (?T st1) \<and> L - 1 > 0 then L - 1 - 1 else L - 1) = L - 1"
    by (simp_all add: a)
  have b: "stringifyBlockSequence node xs (L - 1) compact (?F st1)
      = liftLoop ?F (stringifyBlockSequence node xs (L - 1) compact (?T st1))"
    by (simp add: blockSequence_flagFree [OF n] liftLoop_withArrayIndent)
  have f: "stringifyFlowSequence node xs (L - 1) (?F st1)
      = liftLoop ?F (stringifyFlowSequence node xs (L - 1) (?T st1))"
    by (simp add: flowSequence_flagFree [OF n] liftLoop_withArrayIndent)
  show ?thesis
    unfolding stringifyCollection_def Let_def o jsobj.case s l b f
    by (simp add: withArrayIndent_fields withArrayIndent_twice liftNode_def liftLoop_def
        split: sum.splits)
qed

lemma stringifyNodeBody_arrayLevel:
  assumes d: "detectTypes st x = Inr (tag, JRef a)" and a: "a < length h" and o: "h ! a = JArray xs"
    and n: "\<forall>x\<in>set xs. flagFreeAt node x"
    and e: "L = 0 \<or> (flowLevel st < 0 \<and> (indent st = 2 \<or> L > 1))"
  shows "stringifyNodeBody node h L x block compact isKey (withArrayIndent False st)
     = liftNode (withArrayIndent False)
         (stringifyNodeBody node h (L - 1) x block compact isKey (withArrayIndent True st))"
proof -
  have dt: "detectTypes (withArrayIndent g st) x = Inr (tag, JRef a)" for g
    unfolding d [symmetric] by (rule detectTypes_types) (simp_all add: withArrayIndent_def)
  from e have b: "blockAt (withArrayIndent False st) L block = blockAt (withArrayIndent True st) (L - 1) block"
    by (auto simp: blockAt_def withArrayIndent_fields)
  from e have c: "compactAt (withArrayIndent False st) tag dup L compact
      = compactAt (withArrayIndent True st) tag dup (L - 1) compact" for dup
    by (auto simp: compactAt_def withArrayIndent_fields)
  show ?thesis
    unfolding stringifyNodeBody_collection [OF dt a] withArrayIndent_fields b c
    by (rule stringifyCollection_arrayLevel [OF o n])
qed

text \<open>A value that is rendered as a scalar, or not at all, is rendered the same under the flag.\<close>

lemma stringifyNode_flagFreeAt:
  assumes "\<And>a. x \<noteq> JRef a"
  shows "flagFreeAt (stringifyNode fuel h) x"
  unfolding flagFreeAt_def
proof (intro allI)
  fix f level block compact isKey and st :: DumperState
  let ?g = "withArrayIndent f"
  show "stringifyNode fuel h level x block compact isKey (?g st)
          = liftNode ?g (stringifyNode fuel h level x block compact isKey st)"
  proof (cases fuel)
    case 0
    then show ?thesis by (simp add: liftNode_def)
  next
    case (Suc k)
    have d: "detectTypes (?g st) x = detectTypes st x"
      by (rule detectTypes_types) (simp_all add: withArrayIndent_def)
    show ?thesis
    proof (cases "detectTypes st x")
      case (Inl e)
      then show ?thesis by (simp add: Suc stringifyNodeBody_def d liftNode_def)
    next
      case (Inr p)
      obtain tag object where p: "p = (tag, object)" by (cases p)
      from detectTypes_object [OF Inr [unfolded p]] assms have "refAddr h object = None"
        by (cases object) (auto simp: refAddr_def)
      then show ?thesis
        by (simp add: Suc stringifyNodeBody_def d Inr p Let_def stringifyLeaf_flagFree)
    qed
  qed
qed

lemma stringifyNodeBody_flagFree:
  assumes n: "flagFree f node" and d: "detectTypes st x = Inr (tag, object)"
    and o: "\<And>a xs. refAddr h object = Some a \<Longrightarrow> h ! a \<noteq> JArray xs"
  shows "stringifyNodeBody node h L x block compact isKey (withArrayIndent f st)
     = liftNode (withArrayIndent f) (stringifyNodeBody node h L x block compact isKey st)"
proof -
  let ?g = "withArrayIndent f"
  have dt: "detectTypes (?g st) x = detectTypes st x"
    by (rule detectTypes_types) (simp_all add: withArrayIndent_def)
  show ?thesis
  proof (cases rule: stringifyNodeBody_cases [of st x node h L block compact isKey])
    case (Error e)
    with d show ?thesis by simp
  next
    case (Leaf tag' object')
    then show ?thesis
      by (simp add: stringifyNodeBody_def dt Let_def stringifyLeaf_flagFree)
  next
    case (Collection tag' a block' compact')
    with d have t: "tag' = tag" "object = JRef a" by simp_all
    with o [of a] Collection(3) obtain kvs where k: "h ! a = JObject kvs"
      by (cases "h ! a") (auto simp: refAddr_def)
    from Collection(1) dt have d': "detectTypes (?g st) x = Inr (tag', JRef a)" by simp
    have e: "blockAt (?g st) L block = blockAt st L block"
      "compactAt (?g st) tag' dup L compact = compactAt st tag' dup L compact" for dup
      by (simp_all add: blockAt_def compactAt_def withArrayIndent_fields)
    show ?thesis
      unfolding stringifyNodeBody_collection [OF Collection(1) Collection(3)]
        stringifyNodeBody_collection [OF d' Collection(3)]
        e withArrayIndent_fields
      by (rule stringifyCollection_flagFree [OF n k])
  qed
qed

text \<open>
  C10: without \<open>arrayIndent\<close> every sequence met at a level above 0 is rendered one level
  lower, and so is a sequence that is itself the element of such a sequence: the
  lowering is applied again at each nesting. The elements \<open>p\<close> and \<open>q\<close> of a sequence
  inside the sequence under the key \<open>a\<close> are written two levels lower than with the flag
  (at column 0 for the second, where the flag gives column 4), and the document is the
  same as that of the sequence of the sequence of \<open>p\<close>, and \<open>q\<close>: the two values are
  written alike. A sequence of scalars under a key loses one level.
\<close>

theorem arrayIndent_nested_sequences:
  "stringify (Suc (Suc (Suc (Suc 0)))) nestedPair (JRef 0) (newDumperState emptySchema defaultOptions)
     = Inr (str ''a:'' @ [LF] @ str ''  - - p'' @ [LF] @ str ''    - q'' @ [LF]) \<and>
   stringify (Suc (Suc (Suc (Suc 0)))) nestedPair (JRef 0)
       (newDumperState emptySchema (defaultOptions\<lparr>arrayIndent_opt := Some False\<rparr>))
     = Inr (str ''a:'' @ [LF] @ str ''- - p'' @ [LF] @ str ''- q'' @ [LF]) \<and>
   stringify (Suc (Suc (Suc (Suc 0)))) nestedSingle (JRef 0) (newDumperState emptySchema defaultOptions)
     = Inr (str ''a:'' @ [LF] @ str ''  - - p'' @ [LF] @ str ''  - q'' @ [LF]) \<and>
   stringify (Suc (Suc (Suc (Suc 0)))) nestedSingle (JRef 0)
       (newDumperState emptySchema (defaultOptions\<lparr>arrayIndent_opt := Some False\<rparr>))
     = Inr (str ''a:'' @ [LF] @ str ''- - p'' @ [LF] @ str ''- q'' @ [LF]) \<and>
   stringify (Suc (Suc (Suc 0))) nestedSequence (JRef 0) (newDumperState emptySchema defaultOptions)
     = Inr (str ''a:'' @ [LF] @ str ''  - x'' @ [LF] @ str ''  - z'' @ [LF]) \<and>
   stringify (Suc (Suc (Suc 0))) nestedSequence (JRef 0)
       (newDumperState emptySchema (defaultOptions\<lparr>arrayIndent_opt := Some False\<rparr>))
     = Inr (str ''a:'' @ [LF] @ str ''- x'' @ [LF] @ str ''- z'' @ [LF])"
  unfolding newDumperState_examples
  by (simp add: eval_simps nestedPair_def nestedSingle_def nestedSequence_def str_def)

subsection \<open>The numbers of the anchors\<close>

















end
